theory Spec2Isabelle
  imports Main "HOL-Library.Sublist" "HOL-Library.AList" "HOL-Library.Multiset"
begin

section \<open>Python strings\<close>

text \<open>
  A Python \<open>str\<close> is modelled as a \<open>string\<close>, a list of characters, each a code
  point below 256 (Latin-1, which holds the ASCII text of commands and device output).
  \<open>str.lower\<close>, \<open>str.strip\<close>, \<open>str.split\<close> and the regular expression class
  \<open>\s\<close> are modelled on these code points. \<open>p in s\<close> is \<open>sublist p s\<close> and
  \<open>s.startswith(p)\<close> is \<open>prefix p s\<close>.
\<close>

text \<open>\<open>str.lower\<close> on one character: the letters A to Z, and the Latin-1 capitals
  0xC0 to 0xDE without the multiplication sign 0xD7, move to the letter 0x20 above.\<close>

definition lower_char :: "char \<Rightarrow> char" where
  "lower_char c =
     (case map_of
        (zip (''ABCDEFGHIJKLMNOPQRSTUVWXYZ'' @
              [CHR 0xC0, CHR 0xC1, CHR 0xC2, CHR 0xC3, CHR 0xC4, CHR 0xC5, CHR 0xC6,
               CHR 0xC7, CHR 0xC8, CHR 0xC9, CHR 0xCA, CHR 0xCB, CHR 0xCC, CHR 0xCD,
               CHR 0xCE, CHR 0xCF, CHR 0xD0, CHR 0xD1, CHR 0xD2, CHR 0xD3, CHR 0xD4,
               CHR 0xD5, CHR 0xD6, CHR 0xD8, CHR 0xD9, CHR 0xDA, CHR 0xDB, CHR 0xDC,
               CHR 0xDD, CHR 0xDE])
             (''abcdefghijklmnopqrstuvwxyz'' @
              [CHR 0xE0, CHR 0xE1, CHR 0xE2, CHR 0xE3, CHR 0xE4, CHR 0xE5, CHR 0xE6,
               CHR 0xE7, CHR 0xE8, CHR 0xE9, CHR 0xEA, CHR 0xEB, CHR 0xEC, CHR 0xED,
               CHR 0xEE, CHR 0xEF, CHR 0xF0, CHR 0xF1, CHR 0xF2, CHR 0xF3, CHR 0xF4,
               CHR 0xF5, CHR 0xF6, CHR 0xF8, CHR 0xF9, CHR 0xFA, CHR 0xFB, CHR 0xFC,
               CHR 0xFD, CHR 0xFE]))
        c of
        Some d \<Rightarrow> d
      | None \<Rightarrow> c)"

definition py_lower :: "string \<Rightarrow> string" where
  "py_lower s = map lower_char s"

text \<open>\<open>str.isspace\<close> below 256: tab, line feed, vertical tab, form feed, carriage
  return, the four separators 0x1C to 0x1F, the space, the next-line control 0x85 and
  the no-break space 0xA0.\<close>

definition is_space :: "char \<Rightarrow> bool" where
  "is_space c \<longleftrightarrow>
     c \<in> set [CHR 0x09, CHR 0x0A, CHR 0x0B, CHR 0x0C, CHR 0x0D,
                CHR 0x1C, CHR 0x1D, CHR 0x1E, CHR 0x1F, CHR 0x20, CHR 0x85, CHR 0xA0]"

definition py_rstrip :: "string \<Rightarrow> string" where
  "py_rstrip s = rev (dropWhile is_space (rev s))"

definition py_strip :: "string \<Rightarrow> string" where
  "py_strip s = py_rstrip (dropWhile is_space s)"

text \<open>\<open>s.split()\<close>: the maximal runs of non-whitespace, scanning left to right;
  \<open>cur\<close> is the run being read.\<close>

fun split_scan :: "string \<Rightarrow> string \<Rightarrow> string list" where
  "split_scan cur [] = (if cur = [] then [] else [cur])"
| "split_scan cur (c # cs) =
     (if is_space c then (if cur = [] then split_scan [] cs else cur # split_scan [] cs)
      else split_scan (cur @ [c]) cs)"

definition py_split :: "string \<Rightarrow> string list" where
  "py_split s = split_scan [] s"

text \<open>\<open>s.replace(old, new)\<close>: the leftmost occurrence is replaced and the search
  goes on behind it (occurrences do not overlap); an empty \<open>old\<close> matches before
  every character and at the end.\<close>

function py_replace :: "string \<Rightarrow> string \<Rightarrow> string \<Rightarrow> string" where
  "py_replace old new s =
     (if old = [] then (case s of [] \<Rightarrow> new | c # cs \<Rightarrow> new @ c # py_replace old new cs)
      else (case s of
              [] \<Rightarrow> []
            | c # cs \<Rightarrow>
                if prefix old s then new @ py_replace old new (drop (length old) s)
                else c # py_replace old new cs))"
  by pat_completeness auto
termination
  by (relation "measure (\<lambda>(old, new, s). length s)") auto

declare py_replace.simps [simp del]

text \<open>\<open>str(i)\<close> for a non-negative integer: its decimal digits.\<close>

definition digit_char :: "nat \<Rightarrow> char" where
  "digit_char d = ''0123456789'' ! d"

fun str_nat :: "nat \<Rightarrow> string" where
  "str_nat n = (if n < 10 then [digit_char n] else str_nat (n div 10) @ [digit_char (n mod 10)])"

declare str_nat.simps [simp del]

section \<open>The Syntax Normalizer: \<open>validate_nexus_commands\<close>\<close>

text \<open>The dictionary \<open>ios_to_nexus\<close>, in insertion order (the order of iteration).\<close>

definition ios_to_nexus :: "(string \<times> string) list" where
  "ios_to_nexus =
     [(''show bgp summary'', ''show bgp l2vpn evpn summary''),
      (''show bgp neighbors'', ''show bgp l2vpn evpn neighbors''),
      (''show ip bgp summary'', ''show bgp ipv4 unicast summary''),
      (''show ip bgp neighbors'', ''show bgp ipv4 unicast neighbors''),
      (''show processes cpu'', ''show system resources''),
      (''show processes'', ''show system resources''),
      (''show interface e1/'', ''show interface ethernet1/''),
      (''show int e1/'', ''show interface ethernet1/'')]"

text \<open>The test of the strict block (line 546): the trimmed lower-case command is one
  of three phrases.\<close>

definition strict_blocked :: "string \<Rightarrow> bool" where
  "strict_blocked command \<longleftrightarrow>
     py_strip (py_lower command)
       \<in> set [''show bgp summary'', ''show bgp neighbors'', ''show ip bgp'']"

text \<open>The body of the strict block (lines 547 to 552).\<close>

definition strict_replacement :: "string \<Rightarrow> string" where
  "strict_replacement command =
     (if sublist ''show bgp neighbors'' (py_lower command) then ''show bgp l2vpn evpn neighbors''
      else if sublist ''show bgp summary'' (py_lower command) then ''show bgp l2vpn evpn summary''
      else if sublist ''show ip bgp'' (py_lower command) then ''show bgp ipv4 unicast summary''
      else command)"

text \<open>The loop over the table (lines 560 to 564): the first entry whose key occurs in
  the lower-case command rewrites the lower-case command, and the loop breaks; when no key
  occurs, \<open>validated_command\<close> keeps its value.\<close>

fun general_correction :: "(string \<times> string) list \<Rightarrow> string \<Rightarrow> string \<Rightarrow> string" where
  "general_correction [] command validated_command = validated_command"
| "general_correction ((ios_cmd, nexus_cmd) # table) command validated_command =
     (if sublist ios_cmd (py_lower command)
      then py_replace ios_cmd nexus_cmd (py_lower command)
      else general_correction table command validated_command)"

text \<open>The last pass (lines 567 to 569).\<close>

definition interface_pass :: "string \<Rightarrow> string" where
  "interface_pass validated_command =
     (if sublist ''show interface e1/'' validated_command
      then py_replace ''show interface e1/'' ''show interface ethernet1/'' validated_command
      else validated_command)"

text \<open>One iteration of the loop over the commands; the console output is not modelled.\<close>

definition validate_command :: "string \<Rightarrow> string" where
  "validate_command command =
     interface_pass
       (if strict_blocked command then strict_replacement command
        else general_correction ios_to_nexus command command)"

definition validate_nexus_commands :: "string list \<Rightarrow> string list" where
  "validate_nexus_commands commands = map validate_command commands"

section \<open>The Command Grouper: \<open>group_interface_commands\<close>\<close>

text \<open>
  A Python \<open>dict\<close> keeps its keys in insertion order, and an assignment to a key it
  already holds replaces the value in place: an association list under
  \<open>AList.update\<close>. The four local variables of the scan are the fields of a record;
  \<open>current_interface\<close> is \<open>None\<close> or a string.
\<close>

type_synonym 'v dict = "(string \<times> 'v) list"

record grouper =
  interface_blocks :: "string list dict"
  current_interface :: "string option"
  current_block :: "string list"
  individual_commands :: "string list"

definition grouper_init :: grouper where
  "grouper_init =
     \<lparr>interface_blocks = [], current_interface = None, current_block = [],
      individual_commands = []\<rparr>"

definition sub_keywords :: "string list" where
  "sub_keywords =
     [''description'', ''switchport'', ''no shutdown'', ''shutdown'', ''ip address'',
      ''spanning-tree'', ''mtu'', ''speed'', ''duplex'']"

text \<open>The truth value of \<open>current_interface\<close>: neither \<open>None\<close> nor the empty string.\<close>

definition truthy :: "string option \<Rightarrow> bool" where
  "truthy v = (case v of None \<Rightarrow> False | Some t \<Rightarrow> t \<noteq> [])"

text \<open>\<open>if current_interface and current_block: interface_blocks[current_interface] = current_block\<close>\<close>

definition save_block :: "grouper \<Rightarrow> grouper" where
  "save_block g =
     (case current_interface g of
        None \<Rightarrow> g
      | Some t \<Rightarrow>
          if t \<noteq> [] \<and> current_block g \<noteq> []
          then g\<lparr>interface_blocks := AList.update t (current_block g) (interface_blocks g)\<rparr>
          else g)"

text \<open>As \<open>save_block\<close>, and the block is closed when it was saved (lines 857 to 860).\<close>

definition close_block :: "grouper \<Rightarrow> grouper" where
  "close_block g =
     (if truthy (current_interface g) \<and> current_block g \<noteq> []
      then (save_block g)\<lparr>current_interface := None, current_block := []\<rparr>
      else g)"

text \<open>\<open>command.split()[1] if len(command.split()) > 1 else "unknown"\<close>\<close>

definition interface_token :: "string \<Rightarrow> string" where
  "interface_token command =
     (if length (py_split command) > 1 then py_split command ! 1 else ''unknown'')"

text \<open>The test of line 836 on a command. A command that passes it does not begin
  with \<open>show\<close> or \<open>display\<close>, so it reaches that branch.\<close>

definition opens_interface :: "string \<Rightarrow> bool" where
  "opens_interface command \<longleftrightarrow> prefix ''interface '' (py_strip (py_lower command))"

text \<open>One iteration of the scan (lines 827 to 863).\<close>

definition group_step :: "grouper \<Rightarrow> string \<Rightarrow> grouper" where
  "group_step g command =
     (let command_lower = py_strip (py_lower command) in
      if prefix ''show '' command_lower \<or> prefix ''display '' command_lower then
        g\<lparr>individual_commands := individual_commands g @ [command]\<rparr>
      else if prefix ''interface '' command_lower then
        (save_block g)\<lparr>current_interface := Some (interface_token command),
                        current_block := [''configure terminal'', command]\<rparr>
      else if truthy (current_interface g)
              \<and> list_ex (\<lambda>keyword. sublist keyword command_lower) sub_keywords then
        g\<lparr>current_block := current_block g @ [command]\<rparr>
      else if command_lower = ''configure terminal'' then g
      else (let g' = close_block g in
            g'\<lparr>individual_commands := individual_commands g' @ [command]\<rparr>))"

text \<open>\<open>for i, cmd in enumerate(individual_commands): interface_blocks[f"individual_{i}"] = [cmd]\<close>\<close>

definition add_individual :: "string list dict \<Rightarrow> nat \<times> string \<Rightarrow> string list dict" where
  "add_individual blocks p = AList.update (''individual_'' @ str_nat (fst p)) [snd p] blocks"

definition group_interface_commands :: "string list \<Rightarrow> string list dict" where
  "group_interface_commands commands =
     (let g = save_block (foldl group_step grouper_init commands) in
      foldl add_individual (interface_blocks g) (enumerate 0 (individual_commands g)))"

section \<open>The device as the program sees it\<close>

text \<open>
  What the program observes of the network is the outcome of each call of
  \<open>shell.recv\<close>: data (decoded; the empty string when nothing was read), a
  \<open>socket.timeout\<close>, or another exception; the text is \<open>str(e)\<close>. The \<open>world\<close>
  holds the outcomes still to come (when none is left the device stays silent and
  \<open>recv\<close> times out), everything written with \<open>shell.send\<close> in order, whether
  \<open>connect\<close> succeeds, the answers the user will give to \<open>Confirm.ask\<close> (then
  the default, yes) and the clock read by \<open>datetime.now\<close>. \<open>time.sleep\<close>, the console
  and \<open>close\<close> have no effect on what is modelled; \<open>invoke_shell\<close> and \<open>send\<close>
  are taken to succeed.
\<close>

datatype event = Data string | Timeout string | Fault string

record world =
  reachable :: bool
  script :: "event list"
  sent :: "string list"
  answers :: "bool list"
  clock :: nat

definition recv :: "world \<Rightarrow> event \<times> world" where
  "recv w = (case script w of [] \<Rightarrow> (Timeout [], w) | e # es \<Rightarrow> (e, w\<lparr>script := es\<rparr>))"

definition send :: "string \<Rightarrow> world \<Rightarrow> world" where
  "send text w = w\<lparr>sent := sent w @ [text]\<rparr>"

definition confirm_ask :: "world \<Rightarrow> bool \<times> world" where
  "confirm_ask w = (case answers w of [] \<Rightarrow> (True, w) | a # as \<Rightarrow> (a, w\<lparr>answers := as\<rparr>))"

definition now :: "world \<Rightarrow> nat \<times> world" where
  "now w = (clock w, w\<lparr>clock := Suc (clock w)\<rparr>)"

text \<open>A \<open>shell.recv(4096)\<close> whose data is thrown away: \<open>Inl\<close> the text of the
  exception it raised.\<close>

definition drain :: "world \<Rightarrow> (string \<times> world) + world" where
  "drain w =
     (case recv w of
        (Data _, w') \<Rightarrow> Inr w'
      | (Timeout m, w') \<Rightarrow> Inl (m, w')
      | (Fault m, w') \<Rightarrow> Inl (m, w'))"

definition line :: "string \<Rightarrow> string" where
  "line text = text @ [CHR 0x0A]"

section \<open>\<open>NexusClient\<close>\<close>

record nexus_switch =
  hostname :: string
  ip :: string
  username :: string
  password :: string
  api_port :: int
  ssh_port :: int

text \<open>\<open>ssh_client\<close> is \<open>None\<close> (\<open>False\<close>) or an \<open>SSHClient\<close> object; \<open>connect_ssh\<close>
  assigns the object before it connects, so the field is set also when it fails.\<close>

record nexus_client =
  switch :: nexus_switch
  ssh_client :: bool

definition connect_ssh :: "nexus_client \<Rightarrow> world \<Rightarrow> bool \<times> nexus_client \<times> world" where
  "connect_ssh c w = (reachable w, c\<lparr>ssh_client := True\<rparr>, w)"

text \<open>\<open>re.search(r'[>#]\s*$', s)\<close>: at some position stands \<open>>\<close> or \<open>#\<close> with
  nothing but whitespace behind it.\<close>

fun re_prompt :: "string \<Rightarrow> bool" where
  "re_prompt [] = False"
| "re_prompt (c # cs) =
     (((c = CHR ''>'' \<or> c = CHR ''#'') \<and> list_all is_space cs) \<or> re_prompt cs)"

definition max_timeouts :: nat where
  "max_timeouts = 10"

text \<open>The loop that reads the output (lines 114 to 135).\<close>

function poll :: "world \<Rightarrow> string \<Rightarrow> nat \<Rightarrow> string \<times> world" where
  "poll w buffer timeout_count =
     (if timeout_count < max_timeouts then
        (case recv w of
           (Data chunk, w') \<Rightarrow>
             if chunk \<noteq> [] then
               (if re_prompt (py_strip chunk) then (buffer @ chunk, w')
                else if sublist ''--More--'' chunk then poll (send '' '' w') (buffer @ chunk) 0
                else poll w' (buffer @ chunk) 0)
             else poll w' buffer (timeout_count + 1)
         | (Timeout _, w') \<Rightarrow> poll w' buffer (timeout_count + 1)
         | (Fault _, w') \<Rightarrow> (buffer, w'))
      else (buffer, w))"
  by pat_completeness auto
termination
  by (relation "measures [\<lambda>(w, buffer, n). length (script w),
                          \<lambda>(w, buffer, n). max_timeouts - n]")
     (auto simp: recv_def send_def split: list.splits)

declare poll.simps [simp del]

text \<open>
  The loop as the specification words it: the frame is complete when the trailing
  non-whitespace of the accumulated buffer matches the prompt pattern. It differs from
  \<open>poll\<close> in the text that is tested, and in nothing else.
\<close>

function poll_whole_buffer :: "world \<Rightarrow> string \<Rightarrow> nat \<Rightarrow> string \<times> world" where
  "poll_whole_buffer w buffer timeout_count =
     (if timeout_count < max_timeouts then
        (case recv w of
           (Data chunk, w') \<Rightarrow>
             if chunk \<noteq> [] then
               (if re_prompt (buffer @ chunk) then (buffer @ chunk, w')
                else if sublist ''--More--'' chunk
                then poll_whole_buffer (send '' '' w') (buffer @ chunk) 0
                else poll_whole_buffer w' (buffer @ chunk) 0)
             else poll_whole_buffer w' buffer (timeout_count + 1)
         | (Timeout _, w') \<Rightarrow> poll_whole_buffer w' buffer (timeout_count + 1)
         | (Fault _, w') \<Rightarrow> (buffer, w'))
      else (buffer, w))"
  by pat_completeness auto
termination
  by (relation "measures [\<lambda>(w, buffer, n). length (script w),
                          \<lambda>(w, buffer, n). max_timeouts - n]")
     (auto simp: recv_def send_def split: list.splits)

declare poll_whole_buffer.simps [simp del]

definition config_keywords :: "string list" where
  "config_keywords =
     [''configure terminal'', ''interface ethernet'', ''interface vlan'', ''router bgp'',
      ''vlan '', ''snmp-server'', ''feature '', ''vpc '', ''no shutdown'', ''shutdown'',
      ''description '', ''ip address'', ''switchport'', ''neighbor '', ''address-family'']"

definition is_config_command :: "string \<Rightarrow> bool" where
  "is_config_command command =
     (let command_lower = py_strip (py_lower command);
          is_show_command = prefix ''show '' command_lower \<or> prefix ''display '' command_lower
      in \<not> is_show_command
         \<and> list_ex (\<lambda>keyword. sublist keyword command_lower) config_keywords)"

text \<open>The \<open>try\<close> block of \<open>execute_command\<close> (lines 78 to 147): an exception of a
  \<open>recv\<close> outside the loop ends the call with its text.\<close>

definition shell_command :: "string \<Rightarrow> world \<Rightarrow> string \<times> world" where
  "shell_command command w =
     (case drain w of
        Inl (m, w1) \<Rightarrow> (''Command execution failed: '' @ m, w1)
      | Inr w1 \<Rightarrow>
     (case drain (send (line ''terminal length 0'') w1) of
        Inl (m, w2) \<Rightarrow> (''Command execution failed: '' @ m, w2)
      | Inr w2 \<Rightarrow>
     (case (if is_config_command command then drain (send (line ''configure terminal'') w2)
            else Inr w2) of
        Inl (m, w3) \<Rightarrow> (''Command execution failed: '' @ m, w3)
      | Inr w3 \<Rightarrow>
     (case poll (send (line command) w3) [] 0 of
        (buffer, w4) \<Rightarrow>
     (case (if is_config_command command then drain (send (line ''end'') w4) else Inr w4) of
        Inl (m, w5) \<Rightarrow> (''Command execution failed: '' @ m, w5)
      | Inr w5 \<Rightarrow> (py_strip buffer, w5))))))"

definition execute_command ::
  "nexus_client \<Rightarrow> string \<Rightarrow> world \<Rightarrow> string \<times> nexus_client \<times> world" where
  "execute_command c command w =
     (case (if ssh_client c then (True, c, w) else connect_ssh c w) of
        (ok, c1, w1) \<Rightarrow>
          if \<not> ok then (''SSH connection failed to '' @ ip (switch c), c1, w1)
          else (case shell_command command w1 of (output, w2) \<Rightarrow> (output, c1, w2)))"

text \<open>\<open>while "--More--" in chunk\<close> (lines 181 to 185); the flag tells that a
  \<open>recv\<close> raised.\<close>

function more_loop :: "world \<Rightarrow> string \<Rightarrow> string \<Rightarrow> bool \<times> string \<times> world" where
  "more_loop w chunk buffer =
     (if sublist ''--More--'' chunk then
        (case recv (send '' '' w) of
           (Data chunk', w') \<Rightarrow> more_loop w' chunk' (buffer @ chunk')
         | (Timeout _, w') \<Rightarrow> (True, buffer, w')
         | (Fault _, w') \<Rightarrow> (True, buffer, w'))
      else (False, buffer, w))"
  by pat_completeness auto
termination
  by (relation "measure (\<lambda>(w, chunk, buffer). length (script w))")
     (auto simp: recv_def send_def split: list.splits)

declare more_loop.simps [simp del]

definition command_header :: "string \<Rightarrow> string" where
  "command_header command = CHR 0x0A # ''--- Command: '' @ command @ line '' ---''"

text \<open>One iteration of the loop over the block (lines 170 to 188).\<close>

definition block_step :: "string \<times> world \<Rightarrow> string \<Rightarrow> string \<times> world" where
  "block_step bw command =
     (case bw of (buffer, w) \<Rightarrow>
     (case recv (send (line command) w) of
        (Data chunk, w1) \<Rightarrow>
          (case more_loop w1 chunk (buffer @ command_header command @ chunk) of
             (raised, buffer', w2) \<Rightarrow>
               if raised
               then (buffer' @ command_header command @ line ''[Timeout or error reading output]'', w2)
               else (buffer', w2))
      | (Timeout _, w1) \<Rightarrow>
          (buffer @ command_header command @ line ''[Timeout or error reading output]'', w1)
      | (Fault _, w1) \<Rightarrow>
          (buffer @ command_header command @ line ''[Timeout or error reading output]'', w1)))"

definition shell_block :: "string list \<Rightarrow> world \<Rightarrow> string \<times> world" where
  "shell_block commands w =
     (case drain w of
        Inl (m, w1) \<Rightarrow> (''Command block execution failed: '' @ m, w1)
      | Inr w1 \<Rightarrow>
     (case drain (send (line ''terminal length 0'') w1) of
        Inl (m, w2) \<Rightarrow> (''Command block execution failed: '' @ m, w2)
      | Inr w2 \<Rightarrow>
     (case foldl block_step ([], w2) commands of
        (buffer, w3) \<Rightarrow>
     (case recv (send (line ''end'') w3) of
        (Data final_chunk, w4) \<Rightarrow> (py_strip (buffer @ final_chunk), w4)
      | (Timeout m, w4) \<Rightarrow> (''Command block execution failed: '' @ m, w4)
      | (Fault m, w4) \<Rightarrow> (''Command block execution failed: '' @ m, w4)))))"

definition execute_command_block ::
  "nexus_client \<Rightarrow> string list \<Rightarrow> world \<Rightarrow> string \<times> nexus_client \<times> world" where
  "execute_command_block c commands w =
     (case (if ssh_client c then (True, c, w) else connect_ssh c w) of
        (ok, c1, w1) \<Rightarrow>
          if \<not> ok then (''SSH connection failed to '' @ ip (switch c), c1, w1)
          else (case shell_block commands w1 of (output, w2) \<Rightarrow> (output, c1, w2)))"

section \<open>The Outcome Classifier\<close>

definition failure_indicators :: "string list" where
  "failure_indicators =
     [''Invalid command'', ''% Invalid'', ''Syntax error'', ''Command not found'',
      ''% Ambiguous command'', ''Permission denied'', ''Authentication failed'']"

definition is_command_failure :: "string \<Rightarrow> bool" where
  "is_command_failure output = list_ex (\<lambda>indicator. sublist indicator output) failure_indicators"

definition corrections :: "(string \<times> string) list" where
  "corrections =
     [(''show bgp neighbors'', ''show bgp l2vpn evpn neighbors''),
      (''show bgp summary'', ''show bgp l2vpn evpn summary''),
      (''show ip bgp'', ''show bgp l2vpn evpn''),
      (''show processes cpu'', ''show system resources''),
      (''show processes'', ''show system resources'')]"

definition suggest_command_correction :: "string \<Rightarrow> string \<Rightarrow> string option" where
  "suggest_command_correction failed_command error_output =
     (case map_of corrections failed_command of
        Some correct_cmd \<Rightarrow> Some correct_cmd
      | None \<Rightarrow>
     (case find (\<lambda>(wrong_cmd, correct_cmd). sublist wrong_cmd failed_command) corrections of
        Some (wrong_cmd, correct_cmd) \<Rightarrow> Some (py_replace wrong_cmd correct_cmd failed_command)
      | None \<Rightarrow>
          if sublist ''bgp'' (py_lower failed_command) then
            (if sublist ''neighbor'' (py_lower failed_command)
             then Some ''show bgp l2vpn evpn neighbors''
             else if sublist ''summary'' (py_lower failed_command)
             then Some ''show bgp l2vpn evpn summary''
             else Some ''show bgp l2vpn evpn summary'')
          else None))"

section \<open>The Execution Orchestrator: \<open>execute_commands_on_switch\<close>\<close>

record history_entry =
  entry_timestamp :: nat
  entry_switch :: string
  entry_command :: string
  entry_output :: string

record context_dict =
  last_command :: "string option"
  last_output :: "string option"
  session_notes :: "string list"

text \<open>The fields of \<open>self\<close> the function reads and writes; \<open>cli_context\<close> is
  \<open>self.context\<close>.\<close>

record nexus_cli =
  show_raw :: bool
  command_history :: "history_entry list"
  cli_context :: context_dict

text \<open>The frame of the function: its locals \<open>results\<close> and \<open>client\<close>, \<open>self\<close>,
  and the world.\<close>

record frame =
  results :: "string dict"
  client :: nexus_client
  cli :: nexus_cli
  world :: world

datatype py_error = IndexError

text \<open>\<open>corrected_output = client.execute_command(suggested_command);
  results[suggested_command] = corrected_output; continue\<close>\<close>

definition retry_command :: "frame \<Rightarrow> string \<Rightarrow> frame" where
  "retry_command f suggested_command =
     (case execute_command (client f) suggested_command (world f) of
        (corrected_output, c, w) \<Rightarrow>
          f\<lparr>results := AList.update suggested_command corrected_output (results f),
            client := c, world := w\<rparr>)"

text \<open>
  The handling of one command (lines 911 to 936, and again lines 967 to 992): the frame
  afterwards, the value of \<open>output\<close>, and whether the iteration ended with
  \<open>continue\<close>.
\<close>

definition run_command :: "frame \<Rightarrow> string \<Rightarrow> frame \<times> string \<times> bool" where
  "run_command f command =
     (case execute_command (client f) command (world f) of
        (output, c, w) \<Rightarrow>
     (let f1 = f\<lparr>client := c, world := w\<rparr>;
          recorded = (f1\<lparr>results := AList.update command output (results f1)\<rparr>, output, False)
      in
      if is_command_failure output then
        (case suggest_command_correction command output of
           None \<Rightarrow> recorded
         | Some suggested_command \<Rightarrow>
             if suggested_command = [] then recorded
             else if show_raw (cli f1) then (retry_command f1 suggested_command, output, True)
             else (case confirm_ask (world f1) of
                     (yes, w') \<Rightarrow>
                       if yes
                       then (retry_command (f1\<lparr>world := w'\<rparr>) suggested_command, output, True)
                       else (case recorded of
                               (f2, out, continued) \<Rightarrow> (f2\<lparr>world := w'\<rparr>, out, continued))))
      else recorded))"

text \<open>\<open>x[:500] + "..." if len(x) > 500 else x\<close>\<close>

definition truncate_output :: "string \<Rightarrow> string" where
  "truncate_output x = (if length x > 500 then take 500 x @ ''...'' else x)"

text \<open>The end of an iteration (lines 946 to 960, and lines 994 to 1004): the context
  is assigned and the entry appended.\<close>

definition record_history :: "nexus_switch \<Rightarrow> string \<Rightarrow> string \<Rightarrow> frame \<Rightarrow> frame" where
  "record_history sw command output f =
     (case now (world f) of
        (t, w) \<Rightarrow>
          f\<lparr>cli := (cli f)
               \<lparr>cli_context := (cli_context (cli f))\<lparr>last_command := Some command,
                                                     last_output := Some output\<rparr>,
                command_history := command_history (cli f) @
                  [\<lparr>entry_timestamp = t, entry_switch = hostname sw, entry_command = command,
                    entry_output = truncate_output output\<rparr>]\<rparr>,
            world := w\<rparr>)"

text \<open>\<open>results.get(key, "")\<close>\<close>

definition results_get :: "string dict \<Rightarrow> string \<Rightarrow> string" where
  "results_get d key = (case map_of d key of None \<Rightarrow> [] | Some v \<Rightarrow> v)"

text \<open>One iteration of the loop over the blocks (lines 904 to 960);
  \<open>block_commands[0]\<close> raises on an empty list.\<close>

definition run_block :: "nexus_switch \<Rightarrow> frame \<Rightarrow> string \<times> string list \<Rightarrow> py_error + frame" where
  "run_block sw f block =
     (case block of (block_name, block_commands) \<Rightarrow>
      if prefix ''individual_'' block_name then
        (case block_commands of
           [] \<Rightarrow> Inl IndexError
         | command # _ \<Rightarrow>
             (case run_command f command of
                (f1, output, continued) \<Rightarrow>
                  if continued then Inr f1
                  else Inr (record_history sw command (results_get (results f1) command) f1)))
      else
        (case execute_command_block (client f) block_commands (world f) of
           (combined_output, c, w) \<Rightarrow>
             (let key = ''Interface Config: '' @ block_name;
                  f1 = f\<lparr>results := AList.update key combined_output (results f),
                         client := c, world := w\<rparr>
              in Inr (record_history sw key (results_get (results f1) key) f1))))"

fun run_blocks :: "nexus_switch \<Rightarrow> frame \<Rightarrow> (string \<times> string list) list \<Rightarrow> py_error + frame" where
  "run_blocks sw f [] = Inr f"
| "run_blocks sw f (block # blocks) =
     (case run_block sw f block of
        Inl e \<Rightarrow> Inl e
      | Inr f1 \<Rightarrow> run_blocks sw f1 blocks)"

text \<open>One iteration of the loop over the commands (lines 963 to 1004).\<close>

definition run_single :: "nexus_switch \<Rightarrow> frame \<Rightarrow> string \<Rightarrow> frame" where
  "run_single sw f command =
     (case run_command f command of
        (f1, output, continued) \<Rightarrow>
          if continued then f1 else record_history sw command output f1)"

text \<open>
  The function returns \<open>results\<close>; the frame it ends in also holds \<open>self\<close> and the
  world as the call leaves them. \<open>Inl\<close> is an exception that leaves the function.
\<close>

definition execute_commands_on_switch ::
  "nexus_cli \<Rightarrow> string list \<Rightarrow> nexus_switch \<Rightarrow> world \<Rightarrow> py_error + frame" where
  "execute_commands_on_switch self commands sw w0 =
     (case connect_ssh \<lparr>switch = sw, ssh_client = False\<rparr> w0 of
        (ok, c, w) \<Rightarrow>
          if \<not> ok
          then Inr \<lparr>results = [(''error'', ''Failed to connect to '' @ hostname sw)],
                    client = c, cli = self, world = w\<rparr>
          else
            (let f = \<lparr>results = [], client = c, cli = self, world = w\<rparr>;
                 blocks = group_interface_commands commands
             in if blocks \<noteq> [] then run_blocks sw f blocks
                else Inr (foldl (run_single sw) f commands)))"

section \<open>Concrete inputs\<close>

text \<open>A switch, a freshly constructed \<open>NaturalLanguageNexusCLI\<close> (as \<open>__init__\<close>
  leaves it) and a world that starts with a given script of \<open>recv\<close> outcomes; the
  examples below run the functions on them.\<close>

definition switch1 :: nexus_switch where
  "switch1 =
     \<lparr>hostname = ''nx1'', ip = ''10.0.0.1'', username = ''admin'', password = ''secret'',
      api_port = 443, ssh_port = 22\<rparr>"

definition new_cli :: "bool \<Rightarrow> nexus_cli" where
  "new_cli raw =
     \<lparr>show_raw = raw, command_history = [],
      cli_context = \<lparr>last_command = None, last_output = None, session_notes = []\<rparr>\<rparr>"

definition device :: "bool \<Rightarrow> event list \<Rightarrow> world" where
  "device up outcomes =
     \<lparr>reachable = up, script = outcomes, sent = [], answers = [], clock = 0\<rparr>"

text \<open>The frame of \<open>execute_commands_on_switch\<close> when its loop starts on a connected
  client.\<close>

definition start_frame :: "bool \<Rightarrow> event list \<Rightarrow> frame" where
  "start_frame raw outcomes =
     \<lparr>results = [], client = \<lparr>switch = switch1, ssh_client = True\<rparr>, cli = new_cli raw,
      world = device True outcomes\<rparr>"

section \<open>Connection failure\<close>

text \<open>
  Claim C7. When the SSH connection to the device cannot be established,
  \<open>execute_commands_on_switch\<close> returns the mapping that holds the one entry
  \<open>error\<close> for that device and nothing else; it sends nothing and reads nothing (the
  world is as before, so no command was executed), and \<open>self\<close> is as before (no
  history entry is appended, the context is not touched).
\<close>

theorem connect_failure_single_error:
  assumes "\<not> reachable w"
  shows "execute_commands_on_switch self commands sw w =
           Inr \<lparr>results = [(''error'', ''Failed to connect to '' @ hostname sw)],
                client = \<lparr>switch = sw, ssh_client = True\<rparr>, cli = self, world = w\<rparr>"
  using assms by (simp add: execute_commands_on_switch_def connect_ssh_def)

theorem connect_failure_single_error_witness:
  "\<not> reachable (device False [Data ''nx1# ''])
   \<and> execute_commands_on_switch (new_cli True) [''show version'', ''interface ethernet1/1'']
         switch1 (device False [Data ''nx1# ''])
       = Inr \<lparr>results = [(''error'', ''Failed to connect to nx1'')],
               client = \<lparr>switch = switch1, ssh_client = True\<rparr>, cli = new_cli True,
               world = device False [Data ''nx1# '']\<rparr>"
  using connect_failure_single_error [of "device False [Data ''nx1# '']" "new_cli True"
      "[''show version'', ''interface ethernet1/1'']" switch1]
  by (simp add: device_def switch1_def)

section \<open>Facts about the string functions\<close>

lemma dropWhile_all_append: "list_all P xs \<Longrightarrow> dropWhile P (xs @ ys) = dropWhile P ys"
  by (induction xs) auto

lemma dropWhile_some_append: "\<not> list_all P xs \<Longrightarrow> dropWhile P (xs @ ys) = dropWhile P xs @ ys"
  by (induction xs) auto

lemma dropWhile_some_nonempty: "\<not> list_all P xs \<Longrightarrow> dropWhile P xs \<noteq> []"
  by (induction xs) auto

lemma dropWhile_all_Nil: "list_all P xs \<Longrightarrow> dropWhile P xs = []"
  by (induction xs) auto

lemma dropWhile_dropWhile_same: "dropWhile P (dropWhile P xs) = dropWhile P xs"
  by (induction xs) auto

lemma list_all_dropWhile: "list_all P (dropWhile P xs) = list_all P xs"
  by (induction xs) auto

lemma py_replace_Nil: "py_replace old new [] = (if old = [] then new else [])"
  by (simp add: py_replace.simps [of old new "[]"])

lemma py_replace_hit:
  "old \<noteq> [] \<Longrightarrow> prefix old (c # cs) \<Longrightarrow>
   py_replace old new (c # cs) = new @ py_replace old new (drop (length old) (c # cs))"
  by (simp add: py_replace.simps [of old new "c # cs"])

lemma py_replace_miss:
  "old \<noteq> [] \<Longrightarrow> \<not> prefix old (c # cs) \<Longrightarrow>
   py_replace old new (c # cs) = c # py_replace old new cs"
  by (simp add: py_replace.simps [of old new "c # cs"])

lemma py_replace_absent: "old \<noteq> [] \<Longrightarrow> \<not> sublist old s \<Longrightarrow> py_replace old new s = s"
proof (induction s)
  case Nil
  then show ?case by (simp add: py_replace_Nil)
next
  case (Cons c cs)
  then have "\<not> prefix old (c # cs)" "\<not> sublist old cs"
    by (auto simp: sublist_Cons_right)
  then show ?case using Cons by (simp add: py_replace_miss)
qed

lemma prefix_before_occurrence:
  assumes "prefix old (q @ old @ s)" "q \<noteq> []" "old \<noteq> []"
  shows "prefix old (q @ butlast old)"
proof -
  have eq: "q @ old @ s = (q @ butlast old) @ (last old # s)"
    by (metis append.assoc append_Cons append_Nil append_butlast_last_id assms(3))
  have "prefix old ((q @ butlast old) @ (last old # s))"
    using assms(1) by (simp only: eq)
  moreover have "length old \<le> length (q @ butlast old)"
    using assms(2,3) by (cases q) auto
  ultimately show ?thesis
    by (metis prefix_length_prefix prefixI)
qed

lemma py_replace_first:
  assumes "old \<noteq> []" "\<not> sublist old (p @ butlast old)"
  shows "py_replace old new (p @ old @ s) = p @ new @ py_replace old new s"
  using assms(2)
proof (induction p)
  case Nil
  obtain c cs where old: "old = c # cs" using assms(1) by (cases old) auto
  have "prefix old (c # cs @ s)" by (simp add: old)
  from py_replace_hit [OF assms(1) this, of new] show ?case by (simp add: old)
next
  case (Cons c p)
  have "\<not> prefix old ((c # p) @ old @ s)"
  proof
    assume "prefix old ((c # p) @ old @ s)"
    then have "prefix old ((c # p) @ butlast old)"
      using assms(1) by (intro prefix_before_occurrence) auto
    then show False using Cons.prems prefix_imp_sublist by blast
  qed
  moreover have "\<not> sublist old (p @ butlast old)"
    using Cons.prems by (auto simp: sublist_Cons_right)
  ultimately show ?case using Cons.IH assms(1) by (simp add: py_replace_miss)
qed

lemma py_replace_once:
  assumes "old \<noteq> []" "\<not> sublist old (p @ butlast old)" "\<not> sublist old s"
  shows "py_replace old new (p @ old @ s) = p @ new @ s"
  by (simp add: py_replace_first [OF assms(1,2)] py_replace_absent [OF assms(1,3)])

lemma py_replace_length:
  "length old \<le> length new \<Longrightarrow> length s \<le> length (py_replace old new s)"
proof (induction old new s rule: py_replace.induct)
  case (1 old new s)
  show ?case
  proof (cases s)
    case Nil
    then show ?thesis by simp
  next
    case (Cons c cs)
    show ?thesis
    proof (cases "old = []")
      case True
      then show ?thesis using 1 Cons by (simp add: py_replace.simps [of "[]" new "c # cs"])
    next
      case False
      then show ?thesis
        using 1 Cons
        by (cases "prefix old (c # cs)") (auto simp: py_replace_hit py_replace_miss)
    qed
  qed
qed

lemma py_replace_grows:
  "old \<noteq> [] \<Longrightarrow> length old < length new \<Longrightarrow> sublist old s \<Longrightarrow>
   length s < length (py_replace old new s)"
proof (induction s)
  case Nil
  then show ?case by simp
next
  case (Cons c cs)
  show ?case
  proof (cases "prefix old (c # cs)")
    case True
    have "length (drop (length old) (c # cs)) \<le> length (py_replace old new (drop (length old) (c # cs)))"
      using Cons.prems(2) by (intro py_replace_length) simp
    moreover have "length old \<le> length (c # cs)" using True by (rule prefix_length_le)
    ultimately show ?thesis
      using Cons.prems True by (simp add: py_replace_hit del: drop_Suc_Cons length_drop) (simp)
  next
    case False
    then have "sublist old cs" using Cons.prems(3) by (simp add: sublist_Cons_right)
    then show ?thesis using Cons False by (simp add: py_replace_miss)
  qed
qed

lemma py_replace_nonempty:
  "old \<noteq> [] \<Longrightarrow> new \<noteq> [] \<Longrightarrow> sublist old s \<Longrightarrow> py_replace old new s \<noteq> []"
proof (induction s)
  case Nil
  then show ?case by simp
next
  case (Cons c cs)
  then show ?case
    by (cases "prefix old (c # cs)") (auto simp: py_replace_hit py_replace_miss)
qed

section \<open>The output loop and the prompt\<close>

lemma prompt_char_not_space: "is_space c \<Longrightarrow> c \<noteq> CHR ''>'' \<and> c \<noteq> CHR ''#''"
  by (auto simp: is_space_def)

lemma re_prompt_last:
  "re_prompt s \<longleftrightarrow>
     (case dropWhile is_space (rev s) of [] \<Rightarrow> False | c # _ \<Rightarrow> c = CHR ''>'' \<or> c = CHR ''#'')"
proof (induction s)
  case Nil
  then show ?case by simp
next
  case (Cons c cs)
  show ?case
  proof (cases "list_all is_space cs")
    case True
    then have all: "list_all is_space (rev cs)" by (simp add: list_all_iff)
    have "\<not> re_prompt cs" using Cons.IH all by (simp add: dropWhile_all_Nil)
    then show ?thesis
      using True all prompt_char_not_space [of c] by (auto simp: dropWhile_all_append)
  next
    case False
    then have some: "\<not> list_all is_space (rev cs)" by (simp add: list_all_iff)
    show ?thesis
      using False Cons.IH dropWhile_some_nonempty [OF some]
      by (auto simp: dropWhile_some_append [OF some] split: list.splits)
  qed
qed

lemma re_prompt_append_spaces:
  "list_all is_space chunk \<Longrightarrow> re_prompt (buffer @ chunk) = re_prompt buffer"
  by (simp add: re_prompt_last dropWhile_all_append list_all_iff)

lemma strip_all_spaces: "list_all is_space chunk \<Longrightarrow> py_strip chunk = []"
  by (simp add: py_strip_def py_rstrip_def dropWhile_all_Nil)

lemma re_prompt_append_text:
  assumes "\<not> list_all is_space chunk"
  shows "re_prompt (buffer @ chunk) = re_prompt (py_strip chunk)"
proof -
  let ?core = "dropWhile is_space chunk"
  have some: "\<not> list_all is_space (rev ?core)"
    using assms by (simp add: list_all_dropWhile)
  have "rev chunk = rev ?core @ rev (takeWhile is_space chunk)"
    by (metis rev_append takeWhile_dropWhile_id)
  then have "dropWhile is_space (rev chunk @ rev buffer)
      = dropWhile is_space (rev ?core) @ (rev (takeWhile is_space chunk) @ rev buffer)"
    using dropWhile_some_append [OF some] by simp
  moreover obtain c cs where "dropWhile is_space (rev ?core) = c # cs"
    using dropWhile_some_nonempty [OF some] by (cases "dropWhile is_space (rev ?core)") auto
  moreover from this have "\<not> is_space c"
    by (metis hd_dropWhile list.sel(1) list.distinct(1))
  ultimately show ?thesis
    by (simp add: re_prompt_last py_strip_def py_rstrip_def)
qed

lemma chunk_test_is_buffer_test:
  assumes "\<not> re_prompt buffer"
  shows "re_prompt (py_strip chunk) = re_prompt (buffer @ chunk)"
proof (cases "list_all is_space chunk")
  case True
  then show ?thesis using assms by (simp add: re_prompt_append_spaces strip_all_spaces)
next
  case False
  then show ?thesis by (simp add: re_prompt_append_text)
qed

lemma poll_refines:
  "\<not> re_prompt buffer \<Longrightarrow> poll w buffer n = poll_whole_buffer w buffer n"
proof (induction w buffer n rule: poll.induct)
  case (1 w buffer n)
  show ?case
  proof (cases "n < max_timeouts")
    case False
    then show ?thesis by (simp add: poll.simps [of w buffer n] poll_whole_buffer.simps [of w buffer n])
  next
    case True
    obtain e w' where r: "recv w = (e, w')" by (cases "recv w")
    show ?thesis
    proof (cases e)
      case (Data chunk)
      note test = chunk_test_is_buffer_test [OF "1.prems", of chunk]
      show ?thesis
        using True r Data "1.IH" "1.prems" test
        by (simp add: poll.simps [of w buffer n] poll_whole_buffer.simps [of w buffer n])
    next
      case (Timeout m)
      then show ?thesis
        using True r "1.IH" "1.prems"
        by (simp add: poll.simps [of w buffer n] poll_whole_buffer.simps [of w buffer n])
    next
      case (Fault m)
      then show ?thesis
        using True r
        by (simp add: poll.simps [of w buffer n] poll_whole_buffer.simps [of w buffer n])
    qed
  qed
qed

text \<open>
  Claim C3. The loop of \<open>execute_command\<close> tests the chunk it has just read, and yet it
  stops early exactly when the accumulated buffer matches the prompt pattern: on every
  script of \<open>recv\<close> outcomes it returns the same buffer, and leaves the same world
  (what was sent, what is left to read), as the loop that tests the whole accumulated
  buffer after each read. As long as the loop runs, no prompt ends the buffer, so the
  last text that is not whitespace lies in the chunk whenever the chunk has any.
\<close>

theorem poll_tests_whole_buffer: "poll w [] 0 = poll_whole_buffer w [] 0"
  by (rule poll_refines) simp

section \<open>Results, history and context\<close>

lemma retry_command_cli: "cli (retry_command f s) = cli f"
  by (simp add: retry_command_def split: prod.splits)

lemma run_command_cli: "run_command f command = (f', out, continued) \<Longrightarrow> cli f' = cli f"
  by (auto simp: run_command_def Let_def retry_command_cli split: prod.splits option.splits if_splits)

lemma run_command_recorded:
  "run_command f command = (f', out, False) \<Longrightarrow> results_get (results f') command = out"
  by (auto simp: run_command_def Let_def results_get_def update_conv'
      split: prod.splits option.splits if_splits)

lemma record_history_appends:
  "command_history (cli (record_history sw command out f)) =
     command_history (cli f) @
       [\<lparr>entry_timestamp = clock (world f), entry_switch = hostname sw, entry_command = command,
         entry_output = truncate_output out\<rparr>]"
  by (simp add: record_history_def now_def)

lemma record_history_results: "results (record_history sw command out f) = results f"
  by (simp add: record_history_def now_def)

text \<open>
  Claim C10, as amended. An iteration of either loop of \<open>execute_commands_on_switch\<close>
  that does not end in the retry of a suggested correction appends exactly one history
  entry, for the command or the block it executed, and the entry's output is the output
  recorded in \<open>results\<close>: its first 500 characters followed by \<open>...\<close> when it is
  longer than 500 characters, the whole of it otherwise. For a single command this is
  the iteration of the second loop (\<open>run_single\<close>) and, with the same frame
  afterwards, the iteration of the first loop on an individual block; for a named block
  the entry is filed under \<open>Interface Config:\<close> and the block's name.
\<close>

theorem history_output_truncated:
  assumes "run_command f command = (f1, output, False)"
      and "execute_command_block (client f) block_commands (world f) = (combined_output, c, w)"
      and "prefix ''individual_'' individual_name"
      and "\<not> prefix ''individual_'' block_name"
  shows "command_history (cli (run_single sw f command))
           = command_history (cli f) @
               [\<lparr>entry_timestamp = clock (world f1), entry_switch = hostname sw,
                 entry_command = command,
                 entry_output = (if length output > 500 then take 500 output @ ''...''
                                 else output)\<rparr>]
         \<and> results_get (results (run_single sw f command)) command = output
         \<and> run_block sw f (individual_name, command # rest) = Inr (run_single sw f command)
         \<and> (case run_block sw f (block_name, block_commands) of
              Inl e \<Rightarrow> False
            | Inr f' \<Rightarrow>
                command_history (cli f')
                  = command_history (cli f) @
                      [\<lparr>entry_timestamp = clock w, entry_switch = hostname sw,
                        entry_command = ''Interface Config: '' @ block_name,
                        entry_output = (if length combined_output > 500
                                        then take 500 combined_output @ ''...''
                                        else combined_output)\<rparr>]
                \<and> results_get (results f') (''Interface Config: '' @ block_name)
                    = combined_output)"
proof -
  have rec: "results_get (results f1) command = output"
    using assms(1) by (rule run_command_recorded)
  have single: "run_single sw f command = record_history sw command output f1"
    using assms(1) by (simp add: run_single_def)
  have a: "command_history (cli (run_single sw f command))
           = command_history (cli f) @
               [\<lparr>entry_timestamp = clock (world f1), entry_switch = hostname sw,
                 entry_command = command,
                 entry_output = (if length output > 500 then take 500 output @ ''...''
                                 else output)\<rparr>]"
    unfolding single
    by (simp add: record_history_appends run_command_cli [OF assms(1)] truncate_output_def)
  have b: "results_get (results (run_single sw f command)) command = output"
    unfolding single by (simp add: record_history_results rec)
  have c: "run_block sw f (individual_name, command # rest) = Inr (run_single sw f command)"
    using assms(1,3) rec by (simp add: run_block_def single)
  have d: "case run_block sw f (block_name, block_commands) of
              Inl e \<Rightarrow> False
            | Inr f' \<Rightarrow>
                command_history (cli f')
                  = command_history (cli f) @
                      [\<lparr>entry_timestamp = clock w, entry_switch = hostname sw,
                        entry_command = ''Interface Config: '' @ block_name,
                        entry_output = (if length combined_output > 500
                                        then take 500 combined_output @ ''...''
                                        else combined_output)\<rparr>]
                \<and> results_get (results f') (''Interface Config: '' @ block_name)
                    = combined_output"
    using assms(2,4)
    by (simp add: run_block_def Let_def record_history_appends record_history_results
        truncate_output_def results_get_def update_conv')
  from a b c d show ?thesis by (intro conjI)
qed

text \<open>The theorem at an output of 506 characters: the entry holds 500 of them and the
  marker.\<close>

theorem history_output_truncated_witness:
  "run_command (start_frame True
       [Data ''banner'', Data ''nx1# '', Data (replicate 501 (CHR ''x'') @ '' nx1# ''),
        Data ''ok'', Data ''nx1# ''])
     ''show version''
     = (\<lparr>results = [(''show version'', replicate 501 (CHR ''x'') @ '' nx1#'')],
         client = \<lparr>switch = switch1, ssh_client = True\<rparr>, cli = new_cli True,
         world = \<lparr>reachable = True, script = [Data ''ok'', Data ''nx1# ''],
                  sent = [line ''terminal length 0'', line ''show version''],
                  answers = [], clock = 0\<rparr>\<rparr>,
        replicate 501 (CHR ''x'') @ '' nx1#'', False)
   \<and> execute_command_block
        (client (start_frame True
          [Data ''banner'', Data ''nx1# '', Data (replicate 501 (CHR ''x'') @ '' nx1# ''),
           Data ''ok'', Data ''nx1# '']))
        [''configure terminal'', ''interface ethernet1/1'']
        (world (start_frame True
          [Data ''banner'', Data ''nx1# '', Data (replicate 501 (CHR ''x'') @ '' nx1# ''),
           Data ''ok'', Data ''nx1# '']))
       = (tl (command_header ''configure terminal'') @ replicate 501 (CHR ''x'') @ '' nx1# ''
            @ command_header ''interface ethernet1/1'' @ ''oknx1#'',
          \<lparr>switch = switch1, ssh_client = True\<rparr>,
          \<lparr>reachable = True, script = [],
            sent = [line ''terminal length 0'', line ''configure terminal'',
                    line ''interface ethernet1/1'', line ''end''],
            answers = [], clock = 0\<rparr>)
   \<and> prefix ''individual_'' ''individual_0''
   \<and> \<not> prefix ''individual_'' ''ethernet1/1''
   \<and> command_history (cli (run_single switch1 (start_frame True
          [Data ''banner'', Data ''nx1# '', Data (replicate 501 (CHR ''x'') @ '' nx1# ''),
           Data ''ok'', Data ''nx1# ''])
          ''show version''))
       = [\<lparr>entry_timestamp = 0, entry_switch = ''nx1'', entry_command = ''show version'',
           entry_output = replicate 500 (CHR ''x'') @ ''...''\<rparr>]
   \<and> run_block switch1 (start_frame True
          [Data ''banner'', Data ''nx1# '', Data (replicate 501 (CHR ''x'') @ '' nx1# ''),
           Data ''ok'', Data ''nx1# ''])
          (''individual_0'', [''show version''])
       = Inr (run_single switch1 (start_frame True
          [Data ''banner'', Data ''nx1# '', Data (replicate 501 (CHR ''x'') @ '' nx1# ''),
           Data ''ok'', Data ''nx1# ''])
          ''show version'')"
proof -
  let ?f = "start_frame True
       [Data ''banner'', Data ''nx1# '', Data (replicate 501 (CHR ''x'') @ '' nx1# ''),
        Data ''ok'', Data ''nx1# '']"
  let ?out = "replicate 501 (CHR ''x'') @ '' nx1#''"
  let ?f1 = "\<lparr>results = [(''show version'', ?out)],
         client = \<lparr>switch = switch1, ssh_client = True\<rparr>, cli = new_cli True,
         world = \<lparr>reachable = True, script = [Data ''ok'', Data ''nx1# ''],
                  sent = [line ''terminal length 0'', line ''show version''],
                  answers = [], clock = 0\<rparr>\<rparr>"
  let ?comb = "tl (command_header ''configure terminal'') @ replicate 501 (CHR ''x'') @ '' nx1# ''
            @ command_header ''interface ethernet1/1'' @ ''oknx1#''"
  let ?w = "\<lparr>reachable = True, script = [],
            sent = [line ''terminal length 0'', line ''configure terminal'',
                    line ''interface ethernet1/1'', line ''end''],
            answers = [], clock = 0\<rparr>"
  have h1: "run_command ?f ''show version'' = (?f1, ?out, False)"
    by code_simp
  have h2: "execute_command_block (client ?f) [''configure terminal'', ''interface ethernet1/1'']
      (world ?f) = (?comb, \<lparr>switch = switch1, ssh_client = True\<rparr>, ?w)"
    by code_simp
  have h3: "prefix ''individual_'' ''individual_0''" by simp
  have h4: "\<not> prefix ''individual_'' ''ethernet1/1''" by simp
  note t = history_output_truncated [OF h1 h2 h3 h4, of switch1 "[]"]
  have cut: "(if length ?out > 500 then take 500 ?out @ ''...'' else ?out)
      = replicate 500 (CHR ''x'') @ ''...''"
    by simp
  have start: "command_history (cli ?f) = []" "hostname switch1 = ''nx1''"
    by (simp_all add: start_frame_def new_cli_def switch1_def)
  have "command_history (cli (run_single switch1 ?f ''show version''))
      = command_history (cli ?f) @
          [\<lparr>entry_timestamp = clock (world ?f1), entry_switch = hostname switch1,
            entry_command = ''show version'',
            entry_output = (if length ?out > 500 then take 500 ?out @ ''...'' else ?out)\<rparr>]"
    using t by (rule conjunct1)
  then have a: "command_history (cli (run_single switch1 ?f ''show version''))
       = [\<lparr>entry_timestamp = 0, entry_switch = ''nx1'', entry_command = ''show version'',
           entry_output = replicate 500 (CHR ''x'') @ ''...''\<rparr>]"
    unfolding cut start by simp
  have c: "run_block switch1 ?f (''individual_0'', [''show version''])
       = Inr (run_single switch1 ?f ''show version'')"
    using t by (rule conjunct1 [OF conjunct2 [OF conjunct2]])
  show ?thesis by (intro conjI h1 h2 h3 h4 a c)
qed

text \<open>
  Claim C10 as stated fails for a command whose correction is executed: \<open>results\<close>
  records an output of 506 characters under the corrected command, and no history entry
  stores any of it, since the iteration ends before the entry is appended.
\<close>

theorem retried_output_has_no_entry:
  "map_sum id (\<lambda>f. (results f, command_history (cli f)))
     (execute_commands_on_switch (new_cli False) [''show processes''] switch1
       (device True [Data ''banner'', Data ''nx1# '', Data ''% Invalid command at marker nx1# '',
                     Data ''banner'', Data ''nx1# '',
                     Data (replicate 501 (CHR ''x'') @ '' nx1# '')]))
   = Inr ([(''show system resources'', replicate 501 (CHR ''x'') @ '' nx1#'')], [])"
  by code_simp

lemma suggestion_nonempty:
  assumes "suggest_command_correction failed_command error_output = Some suggested"
  shows "suggested \<noteq> []"
proof (cases "map_of corrections failed_command")
  case (Some v)
  then have "(failed_command, v) \<in> set corrections" by (rule map_of_SomeD)
  then have "v \<noteq> []" by (auto simp: corrections_def)
  then show ?thesis using assms Some by (simp add: suggest_command_correction_def)
next
  case None
  show ?thesis
  proof (cases "find (\<lambda>(wrong_cmd, correct_cmd). sublist wrong_cmd failed_command) corrections")
    case (Some kv)
    obtain wrong_cmd correct_cmd where kv: "kv = (wrong_cmd, correct_cmd)" by (cases kv)
    have "(wrong_cmd, correct_cmd) \<in> set corrections" "sublist wrong_cmd failed_command"
      using Some kv by (auto simp: find_Some_iff in_set_conv_nth)
    moreover from this(1) have "wrong_cmd \<noteq> []" "correct_cmd \<noteq> []"
      by (auto simp: corrections_def)
    ultimately have "py_replace wrong_cmd correct_cmd failed_command \<noteq> []"
      by (intro py_replace_nonempty)
    then show ?thesis
      using assms None Some kv by (simp add: suggest_command_correction_def)
  next
    case None': None
    show ?thesis
      using assms None None'
      by (auto simp: suggest_command_correction_def split: if_splits)
  qed
qed

text \<open>
  Claim C6, as amended. When the output of a command is classified as a failure, a
  correction is suggested and the retry is permitted (\<open>show_raw\<close>, or the user says
  yes), the corrected command is executed once, its output is recorded under the
  corrected command without being classified, and the iteration ends: nothing else is
  added to \<open>results\<close>. The keys afterwards are the keys before and the corrected
  command; the failed command is a key only when it was one before or when the
  suggestion is the failed command itself.
\<close>

theorem retry_records_correction_only:
  assumes "execute_command (client f) command (world f) = (output, c, w)"
      and "is_command_failure output"
      and "suggest_command_correction command output = Some suggested_command"
      and "show_raw (cli f) \<and> w' = w \<or> \<not> show_raw (cli f) \<and> confirm_ask w = (True, w')"
      and "execute_command c suggested_command w' = (corrected_output, c', w'')"
  shows "run_command f command =
           (f\<lparr>results := AList.update suggested_command corrected_output (results f),
              client := c', world := w''\<rparr>, output, True)
         \<and> fst ` set (results (fst (run_command f command)))
             = insert suggested_command (fst ` set (results f))"
proof -
  have ne: "suggested_command \<noteq> []" using assms(3) by (rule suggestion_nonempty)
  have "run_command f command =
           (f\<lparr>results := AList.update suggested_command corrected_output (results f),
              client := c', world := w''\<rparr>, output, True)"
    using assms ne by (auto simp: run_command_def Let_def retry_command_def)
  then show ?thesis by (simp add: dom_update)
qed

text \<open>The theorem at a failed \<open>show bgp summary\<close> in batch mode: both calls of
  \<open>execute_command\<close>, the classification, the suggestion, and the frame afterwards.\<close>

theorem retry_records_correction_only_witness:
  "execute_command (client (start_frame True
       [Data ''banner'', Data ''nx1# '', Data ''% Invalid command at marker nx1# '',
        Data ''banner'', Data ''nx1# '', Data ''BGP summary information nx1# '']))
     ''show bgp summary''
     (world (start_frame True
       [Data ''banner'', Data ''nx1# '', Data ''% Invalid command at marker nx1# '',
        Data ''banner'', Data ''nx1# '', Data ''BGP summary information nx1# '']))
     = (''% Invalid command at marker nx1#'', \<lparr>switch = switch1, ssh_client = True\<rparr>,
        \<lparr>reachable = True,
          script = [Data ''banner'', Data ''nx1# '', Data ''BGP summary information nx1# ''],
          sent = [line ''terminal length 0'', line ''show bgp summary''],
          answers = [], clock = 0\<rparr>)
   \<and> is_command_failure ''% Invalid command at marker nx1#''
   \<and> suggest_command_correction ''show bgp summary'' ''% Invalid command at marker nx1#''
       = Some ''show bgp l2vpn evpn summary''
   \<and> fst (run_command (start_frame True
       [Data ''banner'', Data ''nx1# '', Data ''% Invalid command at marker nx1# '',
        Data ''banner'', Data ''nx1# '', Data ''BGP summary information nx1# ''])
       ''show bgp summary'')
       = \<lparr>results = [(''show bgp l2vpn evpn summary'', ''BGP summary information nx1#'')],
          client = \<lparr>switch = switch1, ssh_client = True\<rparr>, cli = new_cli True,
          world = \<lparr>reachable = True, script = [],
                   sent = [line ''terminal length 0'', line ''show bgp summary'',
                           line ''terminal length 0'', line ''show bgp l2vpn evpn summary''],
                   answers = [], clock = 0\<rparr>\<rparr>"
proof -
  let ?f = "start_frame True
       [Data ''banner'', Data ''nx1# '', Data ''% Invalid command at marker nx1# '',
        Data ''banner'', Data ''nx1# '', Data ''BGP summary information nx1# '']"
  let ?c = "\<lparr>switch = switch1, ssh_client = True\<rparr>"
  let ?w = "\<lparr>reachable = True,
          script = [Data ''banner'', Data ''nx1# '', Data ''BGP summary information nx1# ''],
          sent = [line ''terminal length 0'', line ''show bgp summary''],
          answers = [], clock = 0\<rparr>"
  let ?w'' = "\<lparr>reachable = True, script = [],
                   sent = [line ''terminal length 0'', line ''show bgp summary'',
                           line ''terminal length 0'', line ''show bgp l2vpn evpn summary''],
                   answers = [], clock = 0\<rparr>"
  have h1: "execute_command (client ?f) ''show bgp summary'' (world ?f)
      = (''% Invalid command at marker nx1#'', ?c, ?w)"
    by code_simp
  have h2: "is_command_failure ''% Invalid command at marker nx1#''"
    by code_simp
  have h3: "suggest_command_correction ''show bgp summary'' ''% Invalid command at marker nx1#''
       = Some ''show bgp l2vpn evpn summary''"
    by code_simp
  have h4: "show_raw (cli ?f) \<and> ?w = ?w \<or> \<not> show_raw (cli ?f) \<and> confirm_ask ?w = (True, ?w)"
    by (simp add: start_frame_def new_cli_def)
  have h5: "execute_command ?c ''show bgp l2vpn evpn summary'' ?w
      = (''BGP summary information nx1#'', ?c, ?w'')"
    by code_simp
  from retry_records_correction_only [OF h1 h2 h3 h4 h5] h1 h2 h3 show ?thesis
    by (simp add: start_frame_def)
qed

text \<open>
  Claim C6 as stated fails where the suggestion for the failed command is the failed
  command itself: \<open>show bgp l2vpn evpn summary\<close> is answered with an invalid-command
  message, the fallback for commands that mention \<open>bgp\<close> suggests the same command, it
  is executed again, and the failed command is the key recorded in \<open>results\<close>.
\<close>

theorem failed_command_recorded_as_key:
  "is_command_failure ''% Invalid command at marker nx1#''
   \<and> suggest_command_correction ''show bgp l2vpn evpn summary'' ''% Invalid command at marker nx1#''
       = Some ''show bgp l2vpn evpn summary''
   \<and> map_sum id results
        (execute_commands_on_switch (new_cli True) [''show bgp l2vpn evpn summary''] switch1
          (device True [Data ''banner'', Data ''nx1# '', Data ''% Invalid command at marker nx1# '',
                        Data ''banner'', Data ''nx1# '', Data ''% Invalid command at marker nx1# '']))
       = Inr [(''show bgp l2vpn evpn summary'', ''% Invalid command at marker nx1#'')]"
  by code_simp

text \<open>
  Claim C2 at a failed command whose correction is executed (batch mode): the retry
  ends the iteration with \<open>continue\<close>, before the context is assigned and the history
  entry appended. \<open>results\<close> has its one entry, under the corrected command, while
  \<open>self\<close> is as \<open>__init__\<close> left it: the history is empty and the context holds no
  last command.
\<close>

theorem retried_command_leaves_no_history:
  "execute_commands_on_switch (new_cli True) [''show bgp summary''] switch1
     (device True [Data ''banner'', Data ''nx1# '', Data ''% Invalid command at marker nx1# '',
                   Data ''banner'', Data ''nx1# '', Data ''BGP summary information nx1# ''])
   = Inr \<lparr>results = [(''show bgp l2vpn evpn summary'', ''BGP summary information nx1#'')],
           client = \<lparr>switch = switch1, ssh_client = True\<rparr>,
           cli = new_cli True,
           world = \<lparr>reachable = True, script = [],
                    sent = [line ''terminal length 0'', line ''show bgp summary'',
                            line ''terminal length 0'', line ''show bgp l2vpn evpn summary''],
                    answers = [], clock = 0\<rparr>\<rparr>"
  by code_simp

section \<open>Pagination\<close>

lemma drain_sent:
  "drain w = Inr w' \<Longrightarrow> sent w' = sent w"
  "drain w = Inl (m, w') \<Longrightarrow> sent w' = sent w"
  by (auto simp: drain_def recv_def split: list.splits event.splits)

lemma recv_sent: "recv w = (e, w') \<Longrightarrow> sent w' = sent w"
  by (auto simp: recv_def split: list.splits)

lemma poll_sent: "prefix (sent w) (sent (snd (poll w buffer n)))"
proof (induction w buffer n rule: poll.induct)
  case (1 w buffer n)
  show ?case
  proof (cases "n < max_timeouts")
    case False
    then show ?thesis by (simp add: poll.simps [of w buffer n])
  next
    case True
    obtain e w' where r: "recv w = (e, w')" by (cases "recv w")
    note s = recv_sent [OF r]
    show ?thesis
    proof (cases e)
      case (Data chunk)
      have "prefix (sent w) (sent (send '' '' w'))" by (simp add: send_def s)
      then show ?thesis
        using True r Data "1.IH"(1,2,3) [OF True r [symmetric]] s
        by (auto simp: poll.simps [of w buffer n] dest: prefix_order.trans)
    next
      case (Timeout m)
      then show ?thesis
        using True r "1.IH"(4) [OF True r [symmetric]] s
        by (auto simp: poll.simps [of w buffer n])
    next
      case (Fault m)
      then show ?thesis using True r s by (simp add: poll.simps [of w buffer n])
    qed
  qed
qed

lemma more_loop_sent: "prefix (sent w) (sent (snd (snd (more_loop w chunk buffer))))"
proof (induction w chunk buffer rule: more_loop.induct)
  case (1 w chunk buffer)
  show ?case
  proof (cases "sublist ''--More--'' chunk")
    case False
    then show ?thesis by (simp add: more_loop.simps [of w chunk buffer])
  next
    case True
    obtain e w' where r: "recv (send '' '' w) = (e, w')" by (cases "recv (send '' '' w)")
    have s: "prefix (sent w) (sent w')"
      using recv_sent [OF r] by (simp add: send_def)
    show ?thesis
    proof (cases e)
      case (Data chunk')
      then show ?thesis
        using True r s "1.IH" [OF True r [symmetric]]
        by (auto simp: more_loop.simps [of w chunk buffer] dest: prefix_order.trans)
    next
      case (Timeout m)
      then show ?thesis using True r s by (simp add: more_loop.simps [of w chunk buffer])
    next
      case (Fault m)
      then show ?thesis using True r s by (simp add: more_loop.simps [of w chunk buffer])
    qed
  qed
qed

lemma block_step_sent: "prefix (sent w) (sent (snd (block_step (buffer, w) command)))"
proof -
  obtain e w1 where r: "recv (send (line command) w) = (e, w1)"
    by (cases "recv (send (line command) w)")
  have s: "prefix (sent w) (sent w1)"
    using recv_sent [OF r] by (simp add: send_def)
  show ?thesis
  proof (cases e)
    case (Data chunk)
    have "prefix (sent w1)
        (sent (snd (snd (more_loop w1 chunk (buffer @ command_header command @ chunk)))))"
      by (rule more_loop_sent)
    with s have "prefix (sent w)
        (sent (snd (snd (more_loop w1 chunk (buffer @ command_header command @ chunk)))))"
      by (rule prefix_order.trans)
    then show ?thesis
      using r Data by (auto simp: block_step_def split: prod.splits)
  next
    case (Timeout m)
    then show ?thesis using r s by (simp add: block_step_def)
  next
    case (Fault m)
    then show ?thesis using r s by (simp add: block_step_def)
  qed
qed

lemma block_loop_sent: "prefix (sent w) (sent (snd (foldl block_step (buffer, w) commands)))"
proof (induction commands arbitrary: buffer w)
  case Nil
  then show ?case by simp
next
  case (Cons command commands)
  obtain buffer' w' where st: "block_step (buffer, w) command = (buffer', w')"
    by (cases "block_step (buffer, w) command")
  have "prefix (sent w) (sent w')" using block_step_sent [of w buffer command] st by simp
  moreover have "prefix (sent w') (sent (snd (foldl block_step (buffer', w') commands)))"
    by (rule Cons.IH)
  ultimately show ?case using st by (auto dest: prefix_order.trans)
qed

lemma drain_cases:
  obtains (raised) m w' where "drain w = Inl (m, w')" "sent w' = sent w"
        | (read) w' where "drain w = Inr w'" "sent w' = sent w"
  by (cases "drain w") (auto dest: drain_sent)

lemma shell_command_pagination:
  assumes "recv w = (Data banner, w1)"
  shows "prefix (sent w @ [line ''terminal length 0'']) (sent (snd (shell_command command w)))"
proof -
  have d: "drain w = Inr w1" using assms by (simp add: drain_def)
  have s1: "sent w1 = sent w" using assms by (rule recv_sent)
  let ?w1 = "send (line ''terminal length 0'') w1"
  have base: "sent ?w1 = sent w @ [line ''terminal length 0'']" by (simp add: send_def s1)
  show ?thesis
  proof (cases ?w1 rule: drain_cases)
    case (raised m w2)
    then show ?thesis using d base by (simp add: shell_command_def)
  next
    case (read w2)
    note s2 = read(2) [unfolded base]
    have "\<exists>w3. prefix (sent w2) (sent w3) \<and>
        ((\<exists>m. (if is_config_command command then drain (send (line ''configure terminal'') w2)
                else Inr w2) = Inl (m, w3))
         \<or> (if is_config_command command then drain (send (line ''configure terminal'') w2)
             else Inr w2) = Inr w3)"
    proof (cases "is_config_command command")
      case True
      then show ?thesis
        by (cases "send (line ''configure terminal'') w2" rule: drain_cases)
           (auto simp: send_def)
    next
      case False
      then show ?thesis by simp
    qed
    then obtain w3 where s3: "prefix (sent w2) (sent w3)"
      and t: "(\<exists>m. (if is_config_command command
                     then drain (send (line ''configure terminal'') w2) else Inr w2) = Inl (m, w3))
              \<or> (if is_config_command command
                  then drain (send (line ''configure terminal'') w2) else Inr w2) = Inr w3"
      by blast
    from t show ?thesis
    proof
      assume "\<exists>m. (if is_config_command command
                     then drain (send (line ''configure terminal'') w2) else Inr w2) = Inl (m, w3)"
      then show ?thesis using d read(1) s2 s3 by (auto simp: shell_command_def)
    next
      assume t3: "(if is_config_command command
                  then drain (send (line ''configure terminal'') w2) else Inr w2) = Inr w3"
      obtain buffer w4 where p: "poll (send (line command) w3) [] 0 = (buffer, w4)"
        by (cases "poll (send (line command) w3) [] 0")
      have "prefix (sent (send (line command) w3)) (sent w4)"
        using poll_sent [of "send (line command) w3" "[]" 0] p by simp
      then have "prefix (sent w3) (sent w4)"
        by (auto simp: send_def dest: append_prefixD)
      with s3 have s4: "prefix (sent w2) (sent w4)" by (rule prefix_order.trans)
      have "\<exists>w5. prefix (sent w4) (sent w5) \<and>
        ((\<exists>m. (if is_config_command command then drain (send (line ''end'') w4) else Inr w4)
                = Inl (m, w5))
         \<or> (if is_config_command command then drain (send (line ''end'') w4) else Inr w4)
             = Inr w5)"
      proof (cases "is_config_command command")
        case True
        then show ?thesis
          by (cases "send (line ''end'') w4" rule: drain_cases) (auto simp: send_def)
      next
        case False
        then show ?thesis by simp
      qed
      then obtain w5 where s5: "prefix (sent w4) (sent w5)"
        and u: "(\<exists>m. (if is_config_command command then drain (send (line ''end'') w4)
                        else Inr w4) = Inl (m, w5))
                \<or> (if is_config_command command then drain (send (line ''end'') w4)
                    else Inr w4) = Inr w5"
        by blast
      have "prefix (sent w2) (sent w5)" using s4 s5 by (rule prefix_order.trans)
      then have "prefix (sent w @ [line ''terminal length 0'']) (sent w5)" by (simp only: s2)
      moreover have "snd (shell_command command w) = w5"
        using u d read(1) t3 p by (auto simp: shell_command_def)
      ultimately show ?thesis by simp
    qed
  qed
qed

lemma shell_block_pagination:
  assumes "recv w = (Data banner, w1)"
  shows "prefix (sent w @ [line ''terminal length 0'']) (sent (snd (shell_block commands w)))"
proof -
  have d: "drain w = Inr w1" using assms by (simp add: drain_def)
  have s1: "sent w1 = sent w" using assms by (rule recv_sent)
  let ?w1 = "send (line ''terminal length 0'') w1"
  have base: "sent ?w1 = sent w @ [line ''terminal length 0'']" by (simp add: send_def s1)
  show ?thesis
  proof (cases ?w1 rule: drain_cases)
    case (raised m w2)
    then show ?thesis using d base by (simp add: shell_block_def)
  next
    case (read w2)
    note s2 = read(2) [unfolded base]
    obtain buffer w3 where l: "foldl block_step ([], w2) commands = (buffer, w3)"
      by (cases "foldl block_step ([], w2) commands")
    have s3: "prefix (sent w2) (sent w3)"
      using block_loop_sent [of w2 "[]" commands] l by simp
    obtain e w4 where r: "recv (send (line ''end'') w3) = (e, w4)"
      by (cases "recv (send (line ''end'') w3)")
    have "prefix (sent w3) (sent w4)" using recv_sent [OF r] by (simp add: send_def)
    with s3 have "prefix (sent w2) (sent w4)" by (rule prefix_order.trans)
    then have "prefix (sent w @ [line ''terminal length 0'']) (sent w4)" by (simp only: s2)
    moreover have "snd (shell_block commands w) = w4"
      using d read(1) l r by (cases e) (auto simp: shell_block_def)
    ultimately show ?thesis by simp
  qed
qed

lemma line_inject: "line a = line b \<longleftrightarrow> a = b"
  by (simp add: line_def)

lemma poll_count:
  "x \<noteq> '' '' \<Longrightarrow> count_list (sent (snd (poll w buffer n))) x = count_list (sent w) x"
proof (induction w buffer n rule: poll.induct)
  case (1 w buffer n)
  show ?case
  proof (cases "n < max_timeouts")
    case False
    then show ?thesis by (simp add: poll.simps [of w buffer n])
  next
    case True
    obtain e w' where r: "recv w = (e, w')" by (cases "recv w")
    note s = recv_sent [OF r]
    show ?thesis
    proof (cases e)
      case (Data chunk)
      then show ?thesis
        using True r "1.IH"(1,2,3) [OF True r [symmetric]] "1.prems" s
        by (auto simp: poll.simps [of w buffer n] send_def)
    next
      case (Timeout m)
      then show ?thesis
        using True r "1.IH"(4) [OF True r [symmetric]] "1.prems" s
        by (auto simp: poll.simps [of w buffer n])
    next
      case (Fault m)
      then show ?thesis using True r s by (simp add: poll.simps [of w buffer n])
    qed
  qed
qed

lemma more_loop_count:
  "x \<noteq> '' '' \<Longrightarrow>
   count_list (sent (snd (snd (more_loop w chunk buffer)))) x = count_list (sent w) x"
proof (induction w chunk buffer rule: more_loop.induct)
  case (1 w chunk buffer)
  show ?case
  proof (cases "sublist ''--More--'' chunk")
    case False
    then show ?thesis by (simp add: more_loop.simps [of w chunk buffer])
  next
    case True
    obtain e w' where r: "recv (send '' '' w) = (e, w')" by (cases "recv (send '' '' w)")
    have s: "count_list (sent w') x = count_list (sent w) x"
      using recv_sent [OF r] "1.prems" by (simp add: send_def)
    show ?thesis
    proof (cases e)
      case (Data chunk')
      then show ?thesis
        using True r s "1.IH" [OF True r [symmetric]] "1.prems"
        by (auto simp: more_loop.simps [of w chunk buffer])
    next
      case (Timeout m)
      then show ?thesis using True r s by (simp add: more_loop.simps [of w chunk buffer])
    next
      case (Fault m)
      then show ?thesis using True r s by (simp add: more_loop.simps [of w chunk buffer])
    qed
  qed
qed

lemma block_step_count:
  assumes "x \<noteq> '' ''" "x \<noteq> line command"
  shows "count_list (sent (snd (block_step (buffer, w) command))) x = count_list (sent w) x"
proof -
  obtain e w1 where r: "recv (send (line command) w) = (e, w1)"
    by (cases "recv (send (line command) w)")
  have s: "count_list (sent w1) x = count_list (sent w) x"
    using recv_sent [OF r] assms(2) by (simp add: send_def)
  show ?thesis
  proof (cases e)
    case (Data chunk)
    have "count_list (sent (snd (snd (more_loop w1 chunk
        (buffer @ command_header command @ chunk))))) x = count_list (sent w1) x"
      using assms(1) by (rule more_loop_count)
    then show ?thesis
      using r Data s by (auto simp: block_step_def split: prod.splits)
  next
    case (Timeout m)
    then show ?thesis using r s by (simp add: block_step_def)
  next
    case (Fault m)
    then show ?thesis using r s by (simp add: block_step_def)
  qed
qed

lemma block_loop_count:
  assumes "x \<noteq> '' ''" "x \<notin> line ` set commands"
  shows "count_list (sent (snd (foldl block_step (buffer, w) commands))) x
         = count_list (sent w) x"
  using assms(2)
proof (induction commands arbitrary: buffer w)
  case Nil
  then show ?case by simp
next
  case (Cons command commands)
  obtain buffer' w' where st: "block_step (buffer, w) command = (buffer', w')"
    by (cases "block_step (buffer, w) command")
  have "count_list (sent w') x = count_list (sent w) x"
    using block_step_count [of x command buffer w] assms(1) Cons.prems st by simp
  moreover have "count_list (sent (snd (foldl block_step (buffer', w') commands))) x
      = count_list (sent w') x"
    using Cons.prems by (intro Cons.IH) simp
  ultimately show ?case using st by simp
qed

lemma tl0_not_others:
  "line ''terminal length 0'' \<noteq> '' ''"
  "line ''terminal length 0'' \<noteq> line ''configure terminal''"
  "line ''terminal length 0'' \<noteq> line ''end''"
  by (simp_all add: line_def)

lemma poll_count_tl0:
  "poll w buffer n = (buffer', w') \<Longrightarrow>
   count_list (sent w') (line ''terminal length 0'') = count_list (sent w) (line ''terminal length 0'')"
  using poll_count [of "line ''terminal length 0''" w buffer n] tl0_not_others(1) by simp

lemma drain_count:
  "drain w = Inr w' \<Longrightarrow> count_list (sent w') x = count_list (sent w) x"
  "drain w = Inl (m, w') \<Longrightarrow> count_list (sent w') x = count_list (sent w) x"
  by (simp_all add: drain_sent)

lemma send_count:
  "count_list (sent (send text w)) x = count_list (sent w) x + (if text = x then 1 else 0)"
  by (simp add: send_def)

lemma shell_command_count:
  assumes "recv w = (Data banner, w1)" "command \<noteq> ''terminal length 0''"
  shows "count_list (sent (snd (shell_command command w))) (line ''terminal length 0'')
         = Suc (count_list (sent w) (line ''terminal length 0''))"
proof -
  have d: "drain w = Inr w1" using assms(1) by (simp add: drain_def)
  have s1: "sent w1 = sent w" using assms(1) by (rule recv_sent)
  have nc: "line command \<noteq> line ''terminal length 0''"
    using assms(2) by (simp add: line_inject)
  show ?thesis
    using d s1 nc tl0_not_others
    by (auto simp: shell_command_def send_count drain_count
        dest!: poll_count_tl0 split: sum.splits prod.splits if_splits)
qed

lemma block_loop_count_tl0:
  "foldl block_step (buffer, w) commands = (buffer', w') \<Longrightarrow>
   ''terminal length 0'' \<notin> set commands \<Longrightarrow>
   count_list (sent w') (line ''terminal length 0'') = count_list (sent w) (line ''terminal length 0'')"
proof -
  assume l: "foldl block_step (buffer, w) commands = (buffer', w')"
    and n: "''terminal length 0'' \<notin> set commands"
  have "line ''terminal length 0'' \<notin> line ` set commands"
  proof
    assume "line ''terminal length 0'' \<in> line ` set commands"
    then obtain x where x: "x \<in> set commands" "line ''terminal length 0'' = line x" by blast
    from x(2) have "''terminal length 0'' = x" by (rule line_inject [THEN iffD1])
    with x(1) n show False by blast
  qed
  from block_loop_count [OF tl0_not_others(1) this, of buffer w] l show ?thesis by simp
qed

lemma shell_block_count:
  assumes "recv w = (Data banner, w1)" "''terminal length 0'' \<notin> set commands"
  shows "count_list (sent (snd (shell_block commands w))) (line ''terminal length 0'')
         = Suc (count_list (sent w) (line ''terminal length 0''))"
proof -
  have d: "drain w = Inr w1" using assms(1) by (simp add: drain_def)
  have s1: "sent w1 = sent w" using assms(1) by (rule recv_sent)
  show ?thesis
    using d s1 assms(2) tl0_not_others
    by (auto simp: shell_block_def send_count drain_count
        dest!: block_loop_count_tl0 recv_sent split: sum.splits prod.splits event.splits)
qed

text \<open>
  Claim C8, as amended. Every call of \<open>execute_command\<close> and of
  \<open>execute_command_block\<close> on a connection that is or can be established, whose first
  read (of the banner) does not raise, opens a shell and sends \<open>terminal length 0\<close> on
  it first; and when the command, or the commands of the block, are not
  \<open>terminal length 0\<close> themselves, the call sends that line exactly once. The command is
  thus transmitted once in every call, that is once for every command and every block
  that is executed, and not once for the connection.
\<close>

theorem pagination_disabled_in_every_call:
  assumes "ssh_client c \<or> reachable w"
      and "recv w = (Data banner, w1)"
      and "command \<noteq> ''terminal length 0''"
      and "''terminal length 0'' \<notin> set commands"
  shows "prefix (sent w @ [line ''terminal length 0''])
           (sent (snd (snd (execute_command c command w))))
         \<and> count_list (sent (snd (snd (execute_command c command w)))) (line ''terminal length 0'')
             = Suc (count_list (sent w) (line ''terminal length 0''))
         \<and> prefix (sent w @ [line ''terminal length 0''])
             (sent (snd (snd (execute_command_block c commands w))))
         \<and> count_list (sent (snd (snd (execute_command_block c commands w))))
               (line ''terminal length 0'')
             = Suc (count_list (sent w) (line ''terminal length 0''))"
  using assms(1) shell_command_pagination [OF assms(2), of command]
    shell_block_pagination [OF assms(2), of commands]
    shell_command_count [OF assms(2,3)] shell_block_count [OF assms(2,4)]
  by (auto simp: execute_command_def execute_command_block_def connect_ssh_def
      split: prod.splits)

theorem pagination_disabled_in_every_call_witness:
  "(ssh_client \<lparr>switch = switch1, ssh_client = True\<rparr>
      \<or> reachable (device True [Data ''banner'', Data ''nx1# '', Data ''NX-OS 9.3 nx1# '']))
   \<and> recv (device True [Data ''banner'', Data ''nx1# '', Data ''NX-OS 9.3 nx1# ''])
       = (Data ''banner'', device True [Data ''nx1# '', Data ''NX-OS 9.3 nx1# ''])
   \<and> ''show version'' \<noteq> ''terminal length 0''
   \<and> ''terminal length 0'' \<notin> set [''configure terminal'', ''interface ethernet1/1'']
   \<and> prefix [line ''terminal length 0'']
        (sent (snd (snd (execute_command \<lparr>switch = switch1, ssh_client = True\<rparr>
           ''show version''
           (device True [Data ''banner'', Data ''nx1# '', Data ''NX-OS 9.3 nx1# ''])))))
   \<and> count_list
        (sent (snd (snd (execute_command \<lparr>switch = switch1, ssh_client = True\<rparr>
           ''show version''
           (device True [Data ''banner'', Data ''nx1# '', Data ''NX-OS 9.3 nx1# ''])))))
        (line ''terminal length 0'') = 1
   \<and> prefix [line ''terminal length 0'']
        (sent (snd (snd (execute_command_block \<lparr>switch = switch1, ssh_client = True\<rparr>
           [''configure terminal'', ''interface ethernet1/1'']
           (device True [Data ''banner'', Data ''nx1# '', Data ''NX-OS 9.3 nx1# ''])))))
   \<and> count_list
        (sent (snd (snd (execute_command_block \<lparr>switch = switch1, ssh_client = True\<rparr>
           [''configure terminal'', ''interface ethernet1/1'']
           (device True [Data ''banner'', Data ''nx1# '', Data ''NX-OS 9.3 nx1# ''])))))
        (line ''terminal length 0'') = 1"
proof -
  let ?w = "device True [Data ''banner'', Data ''nx1# '', Data ''NX-OS 9.3 nx1# '']"
  let ?c = "\<lparr>switch = switch1, ssh_client = True\<rparr>"
  have h1: "ssh_client ?c \<or> reachable ?w" by simp
  have h2: "recv ?w = (Data ''banner'', device True [Data ''nx1# '', Data ''NX-OS 9.3 nx1# ''])"
    by (simp add: recv_def device_def)
  have h3: "''show version'' \<noteq> ''terminal length 0''" by simp
  have h4: "''terminal length 0'' \<notin> set [''configure terminal'', ''interface ethernet1/1'']"
    by simp
  have e: "sent ?w = []" by (simp add: device_def)
  from pagination_disabled_in_every_call [OF h1 h2 h3 h4] h1 h2 e
  show ?thesis by simp
qed

text \<open>
  Claim C8 as stated fails on two commands executed over one connection: the line
  \<open>terminal length 0\<close> is sent twice.
\<close>

theorem pagination_disabled_per_command:
  "\<not> (case execute_commands_on_switch (new_cli True) [''show version'', ''show clock''] switch1
            (device True [Data ''banner'', Data ''nx1# '', Data ''NX-OS 9.3 nx1# '',
                          Data ''banner'', Data ''nx1# '', Data ''12:00:00 UTC nx1# '']) of
         Inl e \<Rightarrow> True
       | Inr f \<Rightarrow> count_list (sent (world f)) (line ''terminal length 0'') \<le> 1)"
  by code_simp

section \<open>The Syntax Normalizer\<close>

lemma py_strip_sublist: "sublist (py_strip s) s"
proof -
  have "sublist (rev (dropWhile is_space (rev (dropWhile is_space s)))) (dropWhile is_space s)"
    by (metis sublist_dropWhile sublist_rev rev_rev_ident)
  then show ?thesis
    unfolding py_strip_def py_rstrip_def
    by (rule sublist_order.order.trans) simp
qed

lemma py_lower_sublist: "sublist p s \<Longrightarrow> sublist (py_lower p) (py_lower s)"
  unfolding py_lower_def by (rule map_mono_sublist)

lemma length_py_lower: "length (py_lower s) = length s"
  by (simp add: py_lower_def)

lemma py_lower_append: "py_lower (a @ b) = py_lower a @ py_lower b"
  by (simp add: py_lower_def)

lemma table_entry:
  assumes "(ios_cmd, nexus_cmd) \<in> set ios_to_nexus"
  shows "ios_cmd \<noteq> []" "length ios_cmd < length nexus_cmd"
  using assms by (auto simp: ios_to_nexus_def)

lemma find_entry:
  assumes "find P table = Some entry"
  shows "entry \<in> set table" "P entry"
  using assms by (auto simp: find_Some_iff in_set_conv_nth)

lemma general_correction_first:
  "find (\<lambda>(ios_cmd, nexus_cmd). sublist ios_cmd (py_lower command)) table = Some (k, v)
   \<Longrightarrow> general_correction table command validated = py_replace k v (py_lower command)"
  by (induction table command validated rule: general_correction.induct)
     (auto split: if_splits)

lemma general_correction_none:
  "find (\<lambda>(ios_cmd, nexus_cmd). sublist ios_cmd (py_lower command)) table = None
   \<Longrightarrow> general_correction table command validated = validated"
  by (induction table command validated rule: general_correction.induct)
     (auto split: if_splits)

lemma interface_pass_length: "length s \<le> length (interface_pass s)"
  by (simp add: interface_pass_def py_replace_length)

text \<open>
  Claim C5, as amended. For a command that is not strict-blocked, the first entry of
  the table (in table order) whose phrase occurs in the lower-cased command decides the
  result: the lower-cased command with every occurrence of the phrase replaced, passed
  through the interface pass. The text outside the phrase is kept in lower case, not in
  its own case: where the phrase occurs once, between \<open>before\<close> and \<open>after\<close>, the
  result is the interface pass of lower-cased \<open>before\<close>, the replacement and
  lower-cased \<open>after\<close>.
\<close>

theorem general_correction_rewrites_lowercase:
  assumes "\<not> strict_blocked command"
      and "find (\<lambda>(ios_cmd, nexus_cmd). sublist ios_cmd (py_lower command)) ios_to_nexus
             = Some (ios_cmd, nexus_cmd)"
  shows "validate_command command
           = interface_pass (py_replace ios_cmd nexus_cmd (py_lower command))
         \<and> (command = before @ phrase @ after \<and> py_lower phrase = ios_cmd
              \<and> \<not> sublist ios_cmd (py_lower before @ butlast ios_cmd)
              \<and> \<not> sublist ios_cmd (py_lower after)
            \<longrightarrow> validate_command command
                  = interface_pass (py_lower before @ nexus_cmd @ py_lower after))"
proof -
  have v: "validate_command command
      = interface_pass (py_replace ios_cmd nexus_cmd (py_lower command))"
    using assms by (simp add: validate_command_def general_correction_first)
  have ne: "ios_cmd \<noteq> []"
    using find_entry(1) [OF assms(2)] by (rule table_entry)
  show ?thesis
    using v py_replace_once [OF ne, of "py_lower before" "py_lower after" nexus_cmd]
    by (auto simp: py_lower_append)
qed

theorem general_correction_rewrites_lowercase_witness:
  "\<not> strict_blocked ''Show Processes | include NGINX''
   \<and> find (\<lambda>(ios_cmd, nexus_cmd). sublist ios_cmd (py_lower ''Show Processes | include NGINX''))
         ios_to_nexus = Some (''show processes'', ''show system resources'')
   \<and> ''Show Processes | include NGINX'' = [] @ ''Show Processes'' @ '' | include NGINX''
   \<and> py_lower ''Show Processes'' = ''show processes''
   \<and> \<not> sublist ''show processes'' (py_lower [] @ butlast ''show processes'')
   \<and> \<not> sublist ''show processes'' (py_lower '' | include NGINX'')
   \<and> validate_command ''Show Processes | include NGINX''
       = ''show system resources | include nginx''"
proof -
  have h1: "\<not> strict_blocked ''Show Processes | include NGINX''"
    by code_simp
  have h2: "find (\<lambda>(ios_cmd, nexus_cmd). sublist ios_cmd (py_lower ''Show Processes | include NGINX''))
         ios_to_nexus = Some (''show processes'', ''show system resources'')"
    by code_simp
  have h3: "''Show Processes | include NGINX'' = [] @ ''Show Processes'' @ '' | include NGINX''"
    by simp
  have h4: "py_lower ''Show Processes'' = ''show processes''"
    by code_simp
  have h5: "\<not> sublist ''show processes'' (py_lower [] @ butlast ''show processes'')"
    by code_simp
  have h6: "\<not> sublist ''show processes'' (py_lower '' | include NGINX'')"
    by code_simp
  have e: "interface_pass (py_lower [] @ ''show system resources'' @ py_lower '' | include NGINX'')
      = ''show system resources | include nginx''"
    by code_simp
  have "''Show Processes | include NGINX'' = [] @ ''Show Processes'' @ '' | include NGINX''
        \<and> py_lower ''Show Processes'' = ''show processes''
        \<and> \<not> sublist ''show processes'' (py_lower [] @ butlast ''show processes'')
        \<and> \<not> sublist ''show processes'' (py_lower '' | include NGINX'')
      \<longrightarrow> validate_command ''Show Processes | include NGINX''
          = interface_pass (py_lower [] @ ''show system resources'' @ py_lower '' | include NGINX'')"
    by (rule conjunct2 [OF general_correction_rewrites_lowercase [OF h1 h2]])
  moreover have "''Show Processes | include NGINX'' = [] @ ''Show Processes'' @ '' | include NGINX''
        \<and> py_lower ''Show Processes'' = ''show processes''
        \<and> \<not> sublist ''show processes'' (py_lower [] @ butlast ''show processes'')
        \<and> \<not> sublist ''show processes'' (py_lower '' | include NGINX'')"
    by (intro conjI h3 h4 h5 h6)
  ultimately have "validate_command ''Show Processes | include NGINX''
      = interface_pass (py_lower [] @ ''show system resources'' @ py_lower '' | include NGINX'')"
    by (rule mp)
  then have r: "validate_command ''Show Processes | include NGINX''
      = ''show system resources | include nginx''"
    by (simp only: e)
  show ?thesis by (intro conjI h1 h2 h3 h4 h5 h6 r)
qed

text \<open>
  Claim C5 as stated fails: the replacement is made in the lower-cased command, so the
  case of the text outside the phrase is lost (\<open>NGINX\<close> becomes \<open>nginx\<close>), and every
  occurrence of the phrase is replaced, not one.
\<close>

theorem correction_loses_case:
  "\<not> strict_blocked ''show processes | include NGINX''
   \<and> sublist ''show processes'' (py_lower ''show processes | include NGINX'')
   \<and> validate_nexus_commands [''show processes | include NGINX'']
       = [''show system resources | include nginx'']
   \<and> validate_nexus_commands [''show processes | include NGINX'']
       \<noteq> [''show system resources | include NGINX'']
   \<and> validate_nexus_commands [''show processes ; show processes'']
       = [''show system resources ; show system resources'']"
proof -
  have a: "\<not> strict_blocked ''show processes | include NGINX''"
    by code_simp
  have b: "sublist ''show processes'' (py_lower ''show processes | include NGINX'')"
    by code_simp
  have c: "validate_nexus_commands [''show processes | include NGINX'']
       = [''show system resources | include nginx'']"
    by code_simp
  have d: "validate_nexus_commands [''show processes | include NGINX'']
       \<noteq> [''show system resources | include NGINX'']"
    unfolding c by simp
  have e: "validate_nexus_commands [''show processes ; show processes'']
       = [''show system resources ; show system resources'']"
    by code_simp
  show ?thesis by (intro conjI a b c d e)
qed

lemma strict_replacement_cases:
  assumes "strict_blocked v"
  shows "strict_replacement v \<in> set [''show bgp l2vpn evpn neighbors'',
           ''show bgp l2vpn evpn summary'', ''show bgp ipv4 unicast summary'']"
proof -
  have "sublist (py_strip (py_lower v)) (py_lower v)" by (rule py_strip_sublist)
  then have "sublist ''show bgp summary'' (py_lower v)
      \<or> sublist ''show bgp neighbors'' (py_lower v) \<or> sublist ''show ip bgp'' (py_lower v)"
    using assms by (auto simp: strict_blocked_def)
  then show ?thesis by (auto simp: strict_replacement_def)
qed

lemma strict_replacement_stable:
  assumes "r \<in> set [''show bgp l2vpn evpn neighbors'',
           ''show bgp l2vpn evpn summary'', ''show bgp ipv4 unicast summary'']"
  shows "interface_pass r = r" "\<not> strict_blocked r"
proof -
  have "interface_pass ''show bgp l2vpn evpn neighbors'' = ''show bgp l2vpn evpn neighbors''"
       "interface_pass ''show bgp l2vpn evpn summary'' = ''show bgp l2vpn evpn summary''"
       "interface_pass ''show bgp ipv4 unicast summary'' = ''show bgp ipv4 unicast summary''"
       "\<not> strict_blocked ''show bgp l2vpn evpn neighbors''"
       "\<not> strict_blocked ''show bgp l2vpn evpn summary''"
       "\<not> strict_blocked ''show bgp ipv4 unicast summary''"
    by code_simp+
  then show "interface_pass r = r" "\<not> strict_blocked r" using assms by auto
qed

lemma validate_command_fixed:
  "validate_command v = v \<longleftrightarrow>
     \<not> strict_blocked v
     \<and> find (\<lambda>(ios_cmd, nexus_cmd). sublist ios_cmd (py_lower v)) ios_to_nexus = None"
proof (cases "strict_blocked v")
  case True
  have "validate_command v \<noteq> v"
    using strict_replacement_stable [OF strict_replacement_cases [OF True]] True
    by (auto simp: validate_command_def)
  then show ?thesis using True by simp
next
  case False
  show ?thesis
  proof (cases "find (\<lambda>(ios_cmd, nexus_cmd). sublist ios_cmd (py_lower v)) ios_to_nexus")
    case None
    have "(''show interface e1/'', ''show interface ethernet1/'') \<in> set ios_to_nexus"
      by (simp add: ios_to_nexus_def)
    moreover have "\<forall>entry\<in>set ios_to_nexus.
        \<not> (case entry of (ios_cmd, nexus_cmd) \<Rightarrow> sublist ios_cmd (py_lower v))"
      using None by (auto simp: find_None_iff)
    ultimately have "\<not> sublist ''show interface e1/'' (py_lower v)"
      by blast
    moreover have "py_lower ''show interface e1/'' = ''show interface e1/''"
      by code_simp
    ultimately have "\<not> sublist ''show interface e1/'' v"
      using py_lower_sublist [of "''show interface e1/''" v] by auto
    then show ?thesis
      using False None
      by (simp add: validate_command_def general_correction_none interface_pass_def)
  next
    case (Some entry)
    obtain k y where entry: "entry = (k, y)" by (cases entry)
    have mem: "(k, y) \<in> set ios_to_nexus" and occ: "sublist k (py_lower v)"
      using find_entry [OF Some] entry by auto
    have "length (py_lower v) < length (py_replace k y (py_lower v))"
      using table_entry [OF mem] occ by (intro py_replace_grows)
    also have "\<dots> \<le> length (interface_pass (py_replace k y (py_lower v)))"
      by (rule interface_pass_length)
    finally have "length v < length (validate_command v)"
      using False Some entry
      by (simp add: validate_command_def general_correction_first length_py_lower)
    then show ?thesis using Some by auto
  qed
qed

lemma map_fixed: "map f (map f xs) = map f xs \<longleftrightarrow> list_all (\<lambda>x. f x = x) (map f xs)"
  by (induction xs) auto

text \<open>
  Claim C4, as amended. Normalizing twice gives what normalizing once gives exactly for
  the command lists whose normalized commands hold no phrase of the tables any more:
  none is strict-blocked and none contains a key of the general-correction table (as a
  substring, whatever the case). A normalized command that still holds a phrase is
  rewritten again by the second pass.
\<close>

theorem validate_idempotent_iff:
  "validate_nexus_commands (validate_nexus_commands commands) = validate_nexus_commands commands
   \<longleftrightarrow> list_all (\<lambda>v. \<not> strict_blocked v
                     \<and> \<not> list_ex (\<lambda>(ios_cmd, nexus_cmd). sublist ios_cmd (py_lower v)) ios_to_nexus)
         (validate_nexus_commands commands)"
proof -
  have "\<And>v. find (\<lambda>(ios_cmd, nexus_cmd). sublist ios_cmd (py_lower v)) ios_to_nexus = None
      \<longleftrightarrow> \<not> list_ex (\<lambda>(ios_cmd, nexus_cmd). sublist ios_cmd (py_lower v)) ios_to_nexus"
    by (auto simp: find_None_iff list_ex_iff)
  then show ?thesis
    unfolding validate_nexus_commands_def map_fixed validate_command_fixed by simp
qed

theorem validate_idempotent_iff_witness:
  "list_all (\<lambda>v. \<not> strict_blocked v
               \<and> \<not> list_ex (\<lambda>(ios_cmd, nexus_cmd). sublist ios_cmd (py_lower v)) ios_to_nexus)
     (validate_nexus_commands [''Show IP BGP Summary'', ''show bgp summary'', ''show int e1/3''])
   \<and> validate_nexus_commands
        (validate_nexus_commands [''Show IP BGP Summary'', ''show bgp summary'', ''show int e1/3''])
       = validate_nexus_commands [''Show IP BGP Summary'', ''show bgp summary'', ''show int e1/3'']"
proof -
  have "list_all (\<lambda>v. \<not> strict_blocked v
               \<and> \<not> list_ex (\<lambda>(ios_cmd, nexus_cmd). sublist ios_cmd (py_lower v)) ios_to_nexus)
     (validate_nexus_commands [''Show IP BGP Summary'', ''show bgp summary'', ''show int e1/3''])"
    by code_simp
  with validate_idempotent_iff
    [of "[''Show IP BGP Summary'', ''show bgp summary'', ''show int e1/3'']"]
  show ?thesis by blast
qed

text \<open>
  Claim C4 as stated fails on a command that holds two phrases of the table: the first
  pass rewrites \<open>show processes cpu\<close> and breaks out of the loop, the second pass
  rewrites the \<open>show processes\<close> that is left.
\<close>

theorem validate_twice_differs:
  "validate_nexus_commands [''show processes cpu | include show processes'']
     = [''show system resources | include show processes'']
   \<and> validate_nexus_commands
        (validate_nexus_commands [''show processes cpu | include show processes''])
       = [''show system resources | include show system resources'']
   \<and> validate_nexus_commands
        (validate_nexus_commands [''show processes cpu | include show processes''])
       \<noteq> validate_nexus_commands [''show processes cpu | include show processes'']"
proof -
  have a: "validate_nexus_commands [''show processes cpu | include show processes'']
     = [''show system resources | include show processes'']"
    by code_simp
  have b: "validate_nexus_commands [''show system resources | include show processes'']
       = [''show system resources | include show system resources'']"
    by code_simp
  have c: "[''show system resources | include show system resources'']
       \<noteq> [''show system resources | include show processes'']"
    by simp
  show ?thesis unfolding a b using c by simp
qed

end
